theory Spec2Isabelle
  imports Complex_Main "HOL-Library.Multiset" "HOL-Library.Char_ord" "HOL-Library.List_Lexorder"
begin

section \<open>Strings and characters\<close>

text \<open>
  A Python \<open>str\<close> is modelled as a \<open>string\<close>, a list of 8-bit characters: the model
  covers text whose code points are below 256. The characters the source's regular
  expressions and string methods single out (line feed, tab, dash, slash, the decimal
  digits, the lower-case letters) are all ASCII.
\<close>

definition LF :: char where
  "LF = CHR 0x0A"

definition TAB :: char where
  "TAB = CHR 0x09"

definition is_digit :: "char \<Rightarrow> bool" where
  \<comment> \<open>the character class \<open>[0-9]\<close>\<close>
  "is_digit c \<longleftrightarrow> c \<in> set ''0123456789''"

definition is_hash_char :: "char \<Rightarrow> bool" where
  \<comment> \<open>the character class \<open>[a-z0-9]\<close>\<close>
  "is_hash_char c \<longleftrightarrow> c \<in> set ''abcdefghijklmnopqrstuvwxyz0123456789''"

section \<open>NameCanonicalizer: \<open>parse_package_name\<close>\<close>

definition basename :: "string \<Rightarrow> string" where
  \<comment> \<open>\<open>os.path.basename\<close> (posixpath): \<open>p[p.rfind('/') + 1:]\<close>\<close>
  "basename p = rev (takeWhile (\<lambda>c. c \<noteq> CHR ''/'') (rev p))"

definition at_dollar :: "string \<Rightarrow> bool" where
  \<comment> \<open>\<open>$\<close> without MULTILINE, given the rest of the subject: it matches at the end of
     the string and just before a line feed that ends the string\<close>
  "at_dollar s \<longleftrightarrow> s = [] \<or> s = [LF]"

definition dot_star_dollar :: "string \<Rightarrow> bool" where
  \<comment> \<open>\<open>.*$\<close> on the rest of the subject: the dot matches everything but a line feed, so
     the only position the greedy star reaches where \<open>$\<close> can hold is the end of the
     leading run of characters other than line feed\<close>
  "dot_star_dollar s \<longleftrightarrow> at_dollar (dropWhile (\<lambda>c. c \<noteq> LF) s)"

definition match_hash :: "string \<Rightarrow> string option" where
  \<comment> \<open>\<open>re.match(r'^[a-z0-9]{32}-(.*)$', base_name)\<close>: \<open>None\<close> when there is no match,
     otherwise group 1\<close>
  "match_hash s =
     (let h = take 32 s; r = drop 32 s
      in if length h = 32 \<and> list_all is_hash_char h
         then (case r of
                 [] \<Rightarrow> None
               | c # t \<Rightarrow>
                   if c = CHR ''-'' \<and> dot_star_dollar t
                   then Some (takeWhile (\<lambda>c. c \<noteq> LF) t)
                   else None)
         else None)"

fun version_tail :: "string \<Rightarrow> bool" where
  \<comment> \<open>\<open>-[0-9].*$\<close> on the rest of the subject\<close>
  "version_tail (c # d # t) = (c = CHR ''-'' \<and> is_digit d \<and> dot_star_dollar t)"
| "version_tail _ = False"

fun match_version :: "string \<Rightarrow> string option" where
  \<comment> \<open>\<open>re.match(r"^(.*?)(?:-[0-9].*)?$", name_with_version)\<close>, group 1: the lazy group
     grows one character at a time; at each length the optional version group is tried
     first, then the empty alternative (\<open>$\<close> alone)\<close>
  "match_version [] = Some []"
| "match_version (c # cs) =
     (if version_tail (c # cs) \<or> at_dollar (c # cs) then Some []
      else if c = LF then None
      else map_option (\<lambda>g. c # g) (match_version cs))"

definition strip_version :: "string \<Rightarrow> string" where
  \<comment> \<open>lines 64 to 68: group 1 of the version match, the name itself without a match\<close>
  "strip_version name_with_version =
     (case match_version name_with_version of
        Some g \<Rightarrow> g
      | None \<Rightarrow> name_with_version)"

definition parse_package_name :: "string \<Rightarrow> bool \<Rightarrow> string" where
  "parse_package_name path keep_version =
     (let base_name = basename path
      in case match_hash base_name of
           None \<Rightarrow> base_name
         | Some name_with_version \<Rightarrow>
             if keep_version then name_with_version
             else strip_version name_with_version)"

section \<open>BatchSizer: batches, the sizing facility's output, progress\<close>

text \<open>
  The external sizing facility (\<open>du -s -k\<close>) is a parameter of the model: a function from
  the paths of a batch to the text it writes on its success and error channels. The
  list of store entries is a parameter too. Python's \<open>int\<close>, \<open>str.split\<close> and
  \<open>str.splitlines\<close> are modelled as the language defines them.
\<close>

definition chunk_size :: "nat \<Rightarrow> nat" where
  \<comment> \<open>line 91: \<open>CHUNK_SIZE = max(100, min(1000, len(all_paths) // 100))\<close>\<close>
  "chunk_size len = max 100 (min 1000 (len div 100))"

function chunks_from :: "nat \<Rightarrow> nat \<Rightarrow> 'a list \<Rightarrow> 'a list list" where
  \<comment> \<open>lines 112 and 113: the slices \<open>all_paths[i:i + CHUNK_SIZE]\<close> for \<open>i\<close> in
     \<open>range(i, len(all_paths), CHUNK_SIZE)\<close>. A step of 0 never reaches the loop, since
     \<open>CHUNK_SIZE\<close> is at least 100; the model yields no slice for it.\<close>
  "chunks_from i k xs =
     (if k = 0 \<or> length xs \<le> i then []
      else take k (drop i xs) # chunks_from (i + k) k xs)"
  by pat_completeness auto
termination
  by (relation "measure (\<lambda>(i, k, xs). length xs - i)") auto

declare chunks_from.simps [simp del]

definition is_linebreak :: "char \<Rightarrow> bool" where
  \<comment> \<open>the line boundaries of \<open>str.splitlines\<close> below code point 256\<close>
  "is_linebreak c \<longleftrightarrow>
     c \<in> set [CHR 0x0A, CHR 0x0B, CHR 0x0C, CHR 0x0D, CHR 0x1C, CHR 0x1D, CHR 0x1E, CHR 0x85]"

fun splitlines_from :: "string \<Rightarrow> string \<Rightarrow> string list" where
  \<comment> \<open>\<open>str.splitlines()\<close>, with the line read so far as first argument: a carriage
     return followed by a line feed is one boundary, and no empty line is added after
     a final boundary\<close>
  "splitlines_from cur [] = (if cur = [] then [] else [cur])"
| "splitlines_from cur [c] = (if is_linebreak c then [cur] else [cur @ [c]])"
| "splitlines_from cur (c # d # cs) =
     (if c = CHR 0x0D \<and> d = CHR 0x0A then cur # splitlines_from [] cs
      else if is_linebreak c then cur # splitlines_from [] (d # cs)
      else splitlines_from (cur @ [c]) (d # cs))"

definition splitlines :: "string \<Rightarrow> string list" where
  "splitlines s = splitlines_from [] s"

fun split_tab :: "string \<Rightarrow> string list" where
  \<comment> \<open>\<open>line.split('\t')\<close>: one field more than there are tabs\<close>
  "split_tab [] = [[]]"
| "split_tab (c # cs) =
     (if c = TAB then [] # split_tab cs
      else (case split_tab cs of
              f # fs \<Rightarrow> (c # f) # fs
            | [] \<Rightarrow> [[c]]))"

definition is_space :: "char \<Rightarrow> bool" where
  \<comment> \<open>the white space \<open>int()\<close> strips from both ends, below code point 256: the
     ASCII blanks (tab to carriage return, and the space) and the two spaces above ASCII,
     U+0085 and U+00A0, which the conversion turns into a space first. The separators
     U+001C to U+001F are not among them.\<close>
  "is_space c \<longleftrightarrow>
     c \<in> set [CHR 0x09, CHR 0x0A, CHR 0x0B, CHR 0x0C, CHR 0x0D, CHR 0x20, CHR 0x85, CHR 0xA0]"

definition strip :: "string \<Rightarrow> string" where
  "strip s = rev (dropWhile is_space (rev (dropWhile is_space s)))"

definition digit_val :: "char \<Rightarrow> int" where
  "digit_val c = int (of_char c) - 48"

fun py_digits :: "int \<Rightarrow> string \<Rightarrow> int option" where
  \<comment> \<open>the rest of a decimal literal after its first digit, with the value read so far:
     digits, each optionally preceded by one underscore\<close>
  "py_digits acc [] = Some acc"
| "py_digits acc (c # cs) =
     (if is_digit c then py_digits (10 * acc + digit_val c) cs
      else if c = CHR ''_''
      then (case cs of
              [] \<Rightarrow> None
            | d # ds \<Rightarrow> if is_digit d then py_digits (10 * acc + digit_val d) ds else None)
      else None)"

definition int_max_str_digits :: nat where
  \<comment> \<open>the interpreter's default limit on the digits of a decimal string (CPython 3.11
     and the security releases of 3.7 to 3.10); a longer string raises ValueError\<close>
  "int_max_str_digits = 4300"

definition py_int :: "string \<Rightarrow> int option" where
  \<comment> \<open>\<open>int(s)\<close> on a string, \<open>None\<close> for ValueError: surrounding white space is
     stripped, one sign is optional, then a decimal literal\<close>
  "py_int s =
     (let t = strip s;
          neg = (t \<noteq> [] \<and> hd t = CHR ''-'');
          u = (if t \<noteq> [] \<and> (hd t = CHR ''-'' \<or> hd t = CHR ''+'') then tl t else t)
      in case u of
           [] \<Rightarrow> None
         | c # cs \<Rightarrow>
             if is_digit c \<and> length (filter is_digit u) \<le> int_max_str_digits
             then map_option (\<lambda>v. if neg then - v else v) (py_digits (digit_val c) cs)
             else None)"

section \<open>Aggregator and Orchestrator state\<close>

record stat =
  st_size :: int
  st_count :: int

type_synonym stats_dict = "(string \<times> stat) list"

fun accumulate :: "string \<Rightarrow> int \<Rightarrow> stats_dict \<Rightarrow> stats_dict" where
  \<comment> \<open>lines 150 and 151 on the \<open>defaultdict\<close>, whose items stay in insertion order: a
     new key starts from size 0 and count 0 at the end, a known key is updated in place\<close>
  "accumulate pkg_name size_kb [] = [(pkg_name, \<lparr>st_size = 0 + size_kb, st_count = 0 + 1\<rparr>)]"
| "accumulate pkg_name size_kb ((k, v) # rest) =
     (if k = pkg_name
      then (k, v\<lparr>st_size := st_size v + size_kb, st_count := st_count v + 1\<rparr>) # rest
      else (k, v) # accumulate pkg_name size_kb rest)"

datatype sort_column = Size | Count | Name

record args =
  with_version :: bool
  human_readable :: bool
  verbose :: bool
  sort_by :: sort_column
  reverse :: bool
  n_lines :: "int option"
  full :: bool

definition default_args :: args where
  \<comment> \<open>lines 11 to 20: the values \<open>argparse\<close> gives when no option is passed\<close>
  "default_args =
     \<lparr>with_version = False, human_readable = False, verbose = False, sort_by = Size,
      reverse = False, n_lines = None, full = False\<rparr>"

record state =
  stats :: stats_dict
  encountered_errors :: "string list"
  echoed :: "string list"
  ticks :: nat

record du_result =
  stdout :: string
  stderr :: string

definition init_state :: state where
  "init_state = \<lparr>stats = [], encountered_errors = [], echoed = [], ticks = 0\<rparr>"

definition process_error_line :: "args \<Rightarrow> state \<Rightarrow> string \<Rightarrow> state" where
  \<comment> \<open>lines 127 to 132: the set of errors gains the line; verbose mode prints it\<close>
  "process_error_line a st line =
     st\<lparr>encountered_errors := List.insert line (encountered_errors st),
        echoed := (if verbose a then echoed st @ [line] else echoed st)\<rparr>"

definition process_line :: "args \<Rightarrow> state \<Rightarrow> string \<Rightarrow> state" where
  \<comment> \<open>lines 135 to 154, the body of the loop over the lines of the success channel; the
     progress bar exists exactly in human-readable mode\<close>
  "process_line a st line =
     (let parts = split_tab line
      in if length parts \<noteq> 2 then st
         else (case py_int (parts ! 0) of
                 None \<Rightarrow> st
               | Some size_kb \<Rightarrow>
                   let path = parts ! 1;
                       pkg_name = parse_package_name path (with_version a)
                   in st\<lparr>stats := accumulate pkg_name size_kb (stats st),
                         ticks := (if human_readable a then ticks st + 1 else ticks st)\<rparr>))"

definition process_chunk :: "args \<Rightarrow> (string list \<Rightarrow> du_result) \<Rightarrow> state \<Rightarrow> string list \<Rightarrow> state" where
  \<comment> \<open>lines 113 to 154, one batch: \<open>du\<close> is the external sizing facility, from the
     paths it is given to what it writes on its two channels\<close>
  "process_chunk a du st chunk =
     (if chunk = [] then st
      else let result = du chunk;
               st1 = foldl (process_error_line a) st (splitlines (stderr result))
           in foldl (process_line a) st1 (splitlines (stdout result)))"

definition measure_store :: "args \<Rightarrow> (string list \<Rightarrow> du_result) \<Rightarrow> string list \<Rightarrow> state" where
  \<comment> \<open>lines 87 to 154: all batches in turn\<close>
  "measure_store a du all_paths =
     foldl (process_chunk a du) init_state
       (chunks_from 0 (chunk_size (length all_paths)) all_paths)"

section \<open>Reporter: sorting, percentages, display\<close>

text \<open>
  Sizes and counts are Python's unbounded integers. The percentages are computed in
  exact arithmetic, as rational numbers, where Python rounds each quotient and product to
  a float; a division by zero is a value of the result type. The rows that reach the
  table or the plain output are modelled as data, before they are formatted.
\<close>

definition py_sorted :: "('a \<Rightarrow> 'k::linorder) \<Rightarrow> bool \<Rightarrow> 'a list \<Rightarrow> 'a list" where
  \<comment> \<open>\<open>sorted(xs, key=key, reverse=rv)\<close>: a stable sort; with \<open>reverse\<close> the list is
     reversed before and after the stable sort, as \<open>list.sort\<close> does\<close>
  "py_sorted key rv xs = (if rv then rev (sort_key key (rev xs)) else sort_key key xs)"

definition sorted_stats :: "args \<Rightarrow> stats_dict \<Rightarrow> stats_dict" where
  \<comment> \<open>lines 165 to 170\<close>
  "sorted_stats a st =
     (case sort_by a of
        Size \<Rightarrow> py_sorted (\<lambda>item. st_size (snd item)) (reverse a) st
      | Count \<Rightarrow> py_sorted (\<lambda>item. st_count (snd item)) (reverse a) st
      | Name \<Rightarrow> py_sorted (\<lambda>item. fst item) (reverse a) st)"

datatype py_error = ZeroDivisionError | OverflowError

definition true_div :: "int \<Rightarrow> int \<Rightarrow> py_error + rat" where
  \<comment> \<open>\<open>a / b\<close> on integers, in exact arithmetic: the quotient is a rational number
     where Python rounds it to a float, and no quotient is out of range. The exceptions of
     the float division are those of \<open>div_raises\<close> below.\<close>
  "true_div a b = (if b = 0 then Inl ZeroDivisionError else Inr (of_int a / of_int b))"

definition percent_of :: "int \<Rightarrow> int \<Rightarrow> py_error + rat" where
  \<comment> \<open>lines 178 and 179: \<open>(x / total_size * 100) if total_size > 0 else 0\<close>\<close>
  "percent_of x total_size =
     (if total_size > 0
      then (case true_div x total_size of Inl e \<Rightarrow> Inl e | Inr q \<Rightarrow> Inr (q * 100))
      else Inr 0)"

type_synonym row = "string \<times> stat \<times> rat \<times> rat"

fun percent_loop :: "int \<Rightarrow> int \<Rightarrow> stats_dict \<Rightarrow> py_error + row list" where
  \<comment> \<open>lines 176 to 180, with \<open>total_size\<close> and the running \<open>cumulative_size\<close>\<close>
  "percent_loop total_size cumulative_size [] = Inr []"
| "percent_loop total_size cumulative_size ((name, data) # rest) =
     (let cumulative_size' = cumulative_size + st_size data
      in case percent_of (st_size data) total_size of
           Inl e \<Rightarrow> Inl e
         | Inr perc \<Rightarrow>
             (case percent_of cumulative_size' total_size of
                Inl e \<Rightarrow> Inl e
              | Inr cum_perc \<Rightarrow>
                  (case percent_loop total_size cumulative_size' rest of
                     Inl e \<Rightarrow> Inl e
                   | Inr rows \<Rightarrow> Inr ((name, data, perc, cum_perc) # rows))))"

definition total_size_of :: "stats_dict \<Rightarrow> int" where
  \<comment> \<open>line 173\<close>
  "total_size_of items = sum_list (map (\<lambda>item. st_size (snd item)) items)"

definition processed_stats :: "args \<Rightarrow> stats_dict \<Rightarrow> py_error + row list" where
  \<comment> \<open>lines 170 to 180\<close>
  "processed_stats a st =
     (let items = sorted_stats a st
      in percent_loop (total_size_of items) 0 items)"

definition float_overflow :: "rat \<Rightarrow> bool" where
  \<comment> \<open>the quotient of two integers is rounded to the nearest double, ties to even; from
     \<open>2 ^ 1024 - 2 ^ 970\<close> on, halfway between the largest double and \<open>2 ^ 1024\<close>, the
     rounded value is out of range\<close>
  "float_overflow q \<longleftrightarrow> 2 ^ 1024 - 2 ^ 970 \<le> \<bar>q\<bar>"

definition div_raises :: "int \<Rightarrow> int \<Rightarrow> py_error option" where
  \<comment> \<open>the exception that \<open>a / b\<close> raises on integers, if any\<close>
  "div_raises a b =
     (if b = 0 then Some ZeroDivisionError
      else if float_overflow (of_int a / of_int b) then Some OverflowError
      else None)"

definition percent_raises :: "int \<Rightarrow> int \<Rightarrow> py_error option" where
  \<comment> \<open>lines 178 and 179: the exception of \<open>(x / total_size * 100) if total_size > 0 else 0\<close>,
     if any. The product of two floats raises nothing: beyond the range it is \<open>inf\<close>.\<close>
  "percent_raises x total_size = (if total_size > 0 then div_raises x total_size else None)"

fun loop_raises :: "int \<Rightarrow> int \<Rightarrow> stats_dict \<Rightarrow> py_error option" where
  \<comment> \<open>lines 176 to 180: the first exception of the loop, if any\<close>
  "loop_raises total_size cumulative_size [] = None"
| "loop_raises total_size cumulative_size ((name, data) # rest) =
     (let cumulative_size' = cumulative_size + st_size data
      in case percent_raises (st_size data) total_size of
           Some e \<Rightarrow> Some e
         | None \<Rightarrow>
             (case percent_raises cumulative_size' total_size of
                Some e \<Rightarrow> Some e
              | None \<Rightarrow> loop_raises total_size cumulative_size' rest))"

definition percentages_raise :: "args \<Rightarrow> stats_dict \<Rightarrow> py_error option" where
  \<comment> \<open>lines 170 to 180: the exception the computation of the percentages raises, if any\<close>
  "percentages_raise a st =
     (let items = sorted_stats a st
      in loop_raises (total_size_of items) 0 items)"

definition display_limit :: "args \<Rightarrow> int \<Rightarrow> nat \<Rightarrow> int" where
  \<comment> \<open>lines 186 to 191; \<open>term_limit\<close> is \<open>int(console.size.height * 0.8)\<close>, read from
     the terminal\<close>
  "display_limit a term_limit len =
     (if \<not> full a
      then (case n_lines a of Some k \<Rightarrow> k | None \<Rightarrow> term_limit)
      else int len)"

definition py_tail :: "int \<Rightarrow> 'a list \<Rightarrow> 'a list" where
  \<comment> \<open>line 202: \<open>xs[-limit:] if limit > 0 else []\<close>; a slice that starts before the
     list starts at its beginning\<close>
  "py_tail limit xs =
     (if limit > 0
      then (if int (length xs) - limit < 0 then xs else drop (nat (int (length xs) - limit)) xs)
      else [])"

definition displayed :: "args \<Rightarrow> int \<Rightarrow> row list \<Rightarrow> row list" where
  \<comment> \<open>lines 183 to 221: the rows that reach the table (human-readable mode) or are
     printed one per line (plain mode)\<close>
  "displayed a term_limit rows =
     (if human_readable a
      then py_tail (display_limit a term_limit (length rows)) rows
      else rows)"

definition report :: "args \<Rightarrow> int \<Rightarrow> stats_dict \<Rightarrow> py_error + row list" where
  \<comment> \<open>lines 164 to 221\<close>
  "report a term_limit st =
     (case processed_stats a st of
        Inl e \<Rightarrow> Inl e
      | Inr rows \<Rightarrow> Inr (displayed a term_limit rows))"

section \<open>Notions used to state the properties\<close>

text \<open>
  The definitions of this section are not parts of the program: they say, in the words of
  the specification, what the properties below are about.
\<close>

definition dash_digit_at :: "string \<Rightarrow> nat \<Rightarrow> bool" where
  \<comment> \<open>position \<open>i\<close> of \<open>w\<close> holds a dash and position \<open>i + 1\<close> a digit\<close>
  "dash_digit_at w i \<longleftrightarrow> Suc i < length w \<and> w ! i = CHR ''-'' \<and> is_digit (w ! Suc i)"

definition hash_prefixed :: "string \<Rightarrow> string \<Rightarrow> string \<Rightarrow> bool" where
  \<comment> \<open>\<open>b\<close> is 32 lower-case alphanumeric characters \<open>h\<close>, a dash and a remainder \<open>r\<close>\<close>
  "hash_prefixed b h r \<longleftrightarrow> b = h @ CHR ''-'' # r \<and> length h = 32 \<and> list_all is_hash_char h"

definition first_field :: "string \<Rightarrow> string" where
  \<comment> \<open>the text before the first tab\<close>
  "first_field line = takeWhile (\<lambda>c. c \<noteq> TAB) line"

definition second_field :: "string \<Rightarrow> string" where
  \<comment> \<open>the text after the first tab\<close>
  "second_field line = tl (dropWhile (\<lambda>c. c \<noteq> TAB) line)"

definition two_fields :: "string \<Rightarrow> bool" where
  \<comment> \<open>exactly two tab-separated fields: exactly one tab\<close>
  "two_fields line \<longleftrightarrow> count_list line TAB = 1"

fun underscores_single :: "string \<Rightarrow> bool" where
  \<comment> \<open>no two underscores side by side\<close>
  "underscores_single (c # d # cs) =
     (\<not> (c = CHR ''_'' \<and> d = CHR ''_'') \<and> underscores_single (d # cs))"
| "underscores_single _ = True"

definition literal_tail :: "string \<Rightarrow> bool" where
  \<comment> \<open>what may follow a digit of a decimal literal: digits and single underscores, the
     last character a digit\<close>
  "literal_tail cs \<longleftrightarrow>
     list_all (\<lambda>c. is_digit c \<or> c = CHR ''_'') cs \<and> (cs = [] \<or> is_digit (last cs)) \<and>
     underscores_single cs"

definition int_literal_body :: "string \<Rightarrow> bool" where
  \<comment> \<open>a decimal literal as \<open>int\<close> reads it: digits, single underscores between digits
     allowed, no more digits than the interpreter's limit\<close>
  "int_literal_body b \<longleftrightarrow>
     b \<noteq> [] \<and> is_digit (hd b) \<and> literal_tail (tl b) \<and>
     length (filter is_digit b) \<le> int_max_str_digits"

definition decimal_value :: "string \<Rightarrow> int" where
  \<comment> \<open>the number the digits of a literal denote\<close>
  "decimal_value b = foldl (\<lambda>acc c. 10 * acc + digit_val c) 0 (filter is_digit b)"

definition pct :: "int \<Rightarrow> int \<Rightarrow> rat" where
  \<comment> \<open>the percentage of lines 178 and 179 as a number\<close>
  "pct x total_size = (if 0 < total_size then of_int x / of_int total_size * 100 else 0)"

fun rows_from :: "int \<Rightarrow> int \<Rightarrow> stats_dict \<Rightarrow> row list" where
  \<comment> \<open>the rows of the loop of lines 176 to 180 as a list\<close>
  "rows_from total_size cumulative_size [] = []"
| "rows_from total_size cumulative_size (item # rest) =
     (fst item, snd item, pct (st_size (snd item)) total_size,
      pct (cumulative_size + st_size (snd item)) total_size)
     # rows_from total_size (cumulative_size + st_size (snd item)) rest"

definition last_rows :: "nat \<Rightarrow> 'a list \<Rightarrow> 'a list" where
  \<comment> \<open>the last \<open>k\<close> elements of a list, all of it when it has fewer\<close>
  "last_rows k xs = rev (take k (rev xs))"


definition row_data :: "row \<Rightarrow> stat" where
  "row_data r = fst (snd r)"

definition row_percent :: "row \<Rightarrow> rat" where
  "row_percent r = fst (snd (snd r))"

definition row_cum_percent :: "row \<Rightarrow> rat" where
  "row_cum_percent r = snd (snd (snd r))"

definition stable_sorted_by :: "('a \<Rightarrow> 'k::linorder) \<Rightarrow> bool \<Rightarrow> 'a list \<Rightarrow> 'a list \<Rightarrow> bool" where
  \<comment> \<open>\<open>ys\<close> is \<open>xs\<close> rearranged in the order of the key (descending when \<open>rv\<close>), and
     elements of equal key keep the order they have in \<open>xs\<close>\<close>
  "stable_sorted_by key rv xs ys \<longleftrightarrow>
     mset ys = mset xs \<and>
     (if rv then sorted (rev (map key ys)) else sorted (map key ys)) \<and>
     (\<forall>v. filter (\<lambda>x. key x = v) ys = filter (\<lambda>x. key x = v) xs)"

section \<open>Properties of the NameCanonicalizer\<close>

lemma dda0: "dash_digit_at (c # cs) 0 \<longleftrightarrow> c = CHR ''-'' \<and> cs \<noteq> [] \<and> is_digit (hd cs)"
  by (cases cs) (simp_all add: dash_digit_at_def)

lemma ddaS: "dash_digit_at (c # cs) (Suc i) \<longleftrightarrow> dash_digit_at cs i"
  by (simp add: dash_digit_at_def)

lemma dot_star_dollar_noLF: "LF \<notin> set t \<Longrightarrow> dot_star_dollar t"
  by (auto simp: dot_star_dollar_def at_dollar_def)

lemma version_tail_noLF:
  "LF \<notin> set (c # cs) \<Longrightarrow> version_tail (c # cs) \<longleftrightarrow> dash_digit_at (c # cs) 0"
  by (cases cs) (simp_all add: dda0 dot_star_dollar_noLF)

lemma match_version_step:
  assumes "LF \<notin> set (c # cs)" and "\<not> dash_digit_at (c # cs) 0"
  shows "match_version (c # cs) = map_option (\<lambda>g. c # g) (match_version cs)"
proof -
  have "\<not> version_tail (c # cs)" using assms version_tail_noLF by blast
  moreover have "\<not> at_dollar (c # cs)" using assms(1) by (auto simp: at_dollar_def)
  moreover have "c \<noteq> LF" using assms(1) by auto
  ultimately show ?thesis by simp
qed

lemma match_version_boundary:
  "LF \<notin> set w \<Longrightarrow> dash_digit_at w i \<Longrightarrow> (\<And>j. j < i \<Longrightarrow> \<not> dash_digit_at w j) \<Longrightarrow>
   match_version w = Some (take i w)"
proof (induction w arbitrary: i)
  case Nil
  then show ?case by (simp add: dash_digit_at_def)
next
  case (Cons c cs)
  show ?case
  proof (cases i)
    case 0
    then have "version_tail (c # cs)" using Cons.prems(1,2) version_tail_noLF by blast
    then show ?thesis using 0 by simp
  next
    case (Suc k)
    have n0: "\<not> dash_digit_at (c # cs) 0" using Cons.prems(3) [of 0] Suc by simp
    have "LF \<notin> set cs" using Cons.prems(1) by simp
    moreover have "dash_digit_at cs k" using Cons.prems(2) Suc by (simp add: ddaS)
    moreover have "\<And>j. j < k \<Longrightarrow> \<not> dash_digit_at cs j"
      using Cons.prems(3) Suc ddaS by (metis Suc_less_eq)
    ultimately have "match_version cs = Some (take k cs)" by (rule Cons.IH)
    then show ?thesis
      using match_version_step [OF Cons.prems(1) n0] Suc by simp
  qed
qed

lemma match_version_no_boundary:
  "LF \<notin> set w \<Longrightarrow> (\<And>i. \<not> dash_digit_at w i) \<Longrightarrow> match_version w = Some w"
proof (induction w)
  case Nil
  then show ?case by simp
next
  case (Cons c cs)
  have "LF \<notin> set cs" using Cons.prems(1) by simp
  moreover have "\<And>i. \<not> dash_digit_at cs i" using Cons.prems(2) ddaS by blast
  ultimately have "match_version cs = Some cs" by (rule Cons.IH)
  then show ?case using match_version_step [OF Cons.prems(1) Cons.prems(2)] by simp
qed

lemma match_hash_noLF: "match_hash b = Some w \<Longrightarrow> LF \<notin> set w"
  by (auto simp: match_hash_def Let_def split: if_splits list.splits dest: set_takeWhileD)

lemma match_hash_prefixed:
  "hash_prefixed b h r \<Longrightarrow> LF \<notin> set r \<Longrightarrow> match_hash b = Some r"
  by (auto simp: hash_prefixed_def match_hash_def dot_star_dollar_noLF)

lemma match_hash_SomeD:
  assumes "match_hash b = Some w"
  shows "\<exists>h r. hash_prefixed b h r"
proof -
  from assms have l: "length (take 32 b) = 32" and h: "list_all is_hash_char (take 32 b)"
    by (simp_all add: match_hash_def Let_def split: if_splits)
  from assms l h obtain t where "drop 32 b = CHR ''-'' # t"
    by (auto simp: match_hash_def Let_def split: if_splits list.splits)
  then have "b = take 32 b @ CHR ''-'' # t" by (metis append_take_drop_id)
  with l h have "hash_prefixed b (take 32 b) t" unfolding hash_prefixed_def by blast
  then show ?thesis by blast
qed

section \<open>Properties of the BatchSizer\<close>

lemma chunks_from_concat: "0 < k \<Longrightarrow> concat (chunks_from i k xs) = drop i xs"
proof (induction i k xs rule: chunks_from.induct)
  case (1 i k xs)
  show ?case
  proof (cases "length xs \<le> i")
    case True
    then show ?thesis by (subst chunks_from.simps) simp
  next
    case False
    then have "concat (chunks_from i k xs) = take k (drop i xs) @ concat (chunks_from (i + k) k xs)"
      using "1.prems" by (subst chunks_from.simps) simp
    also have "concat (chunks_from (i + k) k xs) = drop (i + k) xs"
      using False "1.prems" "1.IH" by simp
    also have "take k (drop i xs) @ drop (i + k) xs = drop i xs"
      by (metis add.commute append_take_drop_id drop_drop)
    finally show ?thesis .
  qed
qed

lemma chunks_from_bounded:
  "list_all (\<lambda>c. c \<noteq> [] \<and> length c \<le> k) (chunks_from i k xs)"
proof (induction i k xs rule: chunks_from.induct)
  case (1 i k xs)
  show ?case
  proof (cases "k = 0 \<or> length xs \<le> i")
    case True
    then show ?thesis by (subst chunks_from.simps) simp
  next
    case False
    then have "chunks_from i k xs = take k (drop i xs) # chunks_from (i + k) k xs"
      by (subst chunks_from.simps) simp
    moreover have "take k (drop i xs) \<noteq> []" using False by simp
    moreover have "length (take k (drop i xs)) \<le> k" by simp
    ultimately show ?thesis using "1.IH" False by simp
  qed
qed

lemma split_tab_no_tab: "TAB \<notin> set s \<Longrightarrow> split_tab s = [s]"
  by (induction s) auto

lemma split_tab_nonempty: "split_tab s \<noteq> []"
  by (induction s) (auto split: list.splits)

lemma split_tab_length: "length (split_tab s) = Suc (count_list s TAB)"
  by (induction s) (auto split: list.splits)

lemma split_tab_two:
  assumes "two_fields line"
  shows "split_tab line = [first_field line, second_field line]"
  using assms unfolding two_fields_def first_field_def second_field_def
proof (induction line)
  case Nil
  then show ?case by simp
next
  case (Cons c cs)
  show ?case
  proof (cases "c = TAB")
    case True
    with Cons.prems have "count_list cs TAB = 0" by simp
    then have "TAB \<notin> set cs" by (simp add: count_list_0_iff)
    then show ?thesis using True by (simp add: split_tab_no_tab)
  next
    case False
    with Cons.prems have "count_list cs TAB = 1" by simp
    then have "split_tab cs = [takeWhile (\<lambda>c. c \<noteq> TAB) cs, tl (dropWhile (\<lambda>c. c \<noteq> TAB) cs)]"
      by (rule Cons.IH)
    then show ?thesis using False by simp
  qed
qed

lemma accumulate_count:
  "sum_list (map (\<lambda>item. st_count (snd item)) (accumulate n s d)) =
   sum_list (map (\<lambda>item. st_count (snd item)) d) + 1"
  by (induction n s d rule: accumulate.induct) auto

lemma accumulate_changes: "accumulate n s d \<noteq> d"
proof
  assume "accumulate n s d = d"
  then have "sum_list (map (\<lambda>item. st_count (snd item)) (accumulate n s d)) =
    sum_list (map (\<lambda>item. st_count (snd item)) d)" by simp
  then show False by (simp add: accumulate_count)
qed

lemma process_line_good:
  assumes "two_fields line" and "py_int (first_field line) = Some size_kb"
  shows "process_line a st line =
    st\<lparr>stats := accumulate (parse_package_name (second_field line) (with_version a)) size_kb (stats st),
       ticks := (if human_readable a then ticks st + 1 else ticks st)\<rparr>"
  using assms by (simp add: process_line_def split_tab_two Let_def)

lemma process_line_bad:
  assumes "\<not> (two_fields line \<and> py_int (first_field line) \<noteq> None)"
  shows "process_line a st line = st"
proof (cases "two_fields line")
  case True
  with assms have "py_int (first_field line) = None" by simp
  then show ?thesis using True by (simp add: process_line_def split_tab_two Let_def)
next
  case False
  then have "length (split_tab line) \<noteq> 2"
    by (simp add: split_tab_length two_fields_def)
  then show ?thesis by (simp add: process_line_def Let_def)
qed

lemma ticks_process_line:
  "ticks (process_line a st line) =
   ticks st + (if human_readable a \<and> two_fields line \<and> py_int (first_field line) \<noteq> None
               then 1 else 0)"
proof (cases "two_fields line \<and> py_int (first_field line) \<noteq> None")
  case True
  then obtain k where "py_int (first_field line) = Some k" by auto
  with True show ?thesis by (simp add: process_line_good)
next
  case False
  then show ?thesis by (simp add: process_line_bad)
qed

lemma ticks_process_lines:
  "ticks (foldl (process_line a) st ls) =
   ticks st + (if human_readable a
               then length (filter (\<lambda>l. two_fields l \<and> py_int (first_field l) \<noteq> None) ls)
               else 0)"
  by (induction ls arbitrary: st) (auto simp: ticks_process_line)

lemma ticks_process_error_lines:
  "ticks (foldl (process_error_line a) st ls) = ticks st"
  by (induction ls arbitrary: st) (simp_all add: process_error_line_def)

lemma ticks_process_chunk:
  "ticks (process_chunk a du st chunk) =
   ticks st + (if human_readable a \<and> chunk \<noteq> []
               then length (filter (\<lambda>l. two_fields l \<and> py_int (first_field l) \<noteq> None)
                      (splitlines (stdout (du chunk))))
               else 0)"
  by (simp add: process_chunk_def Let_def ticks_process_lines ticks_process_error_lines)

subsection \<open>What \<open>int\<close> accepts\<close>

lemma is_space_codes:
  "is_space c \<longleftrightarrow> (of_char c :: nat) \<in> {9..13} \<union> {32, 133, 160}"
proof -
  have "is_space c \<longleftrightarrow> (of_char c :: nat) \<in> of_char ` set [CHR 0x09, CHR 0x0A, CHR 0x0B, CHR 0x0C, CHR 0x0D, CHR 0x20, CHR 0x85, CHR 0xA0]"
    unfolding is_space_def by (simp only: inj_image_mem_iff [OF inj_of_char])
  also have "\<dots> \<longleftrightarrow> (of_char c :: nat) \<in> {9, 10, 11, 12, 13, 32, 133, 160}"
    by simp
  also have "\<dots> \<longleftrightarrow> (of_char c :: nat) \<in> {9..13} \<union> {32, 133, 160}"
    by auto
  finally show ?thesis .
qed

lemma strip_parts:
  "\<exists>l r. s = l @ strip s @ r \<and> list_all is_space l \<and> list_all is_space r \<and>
     (strip s \<noteq> [] \<longrightarrow> \<not> is_space (hd (strip s)) \<and> \<not> is_space (last (strip s)))"
proof -
  define d where "d = dropWhile is_space s"
  define l where "l = takeWhile is_space s"
  define r where "r = rev (takeWhile is_space (rev d))"
  have st: "strip s = rev (dropWhile is_space (rev d))" by (simp add: strip_def d_def)
  have "strip s @ r = rev (takeWhile is_space (rev d) @ dropWhile is_space (rev d))"
    unfolding st r_def by (simp only: rev_append)
  also have "\<dots> = rev (rev d)" by (simp only: takeWhile_dropWhile_id)
  also have "\<dots> = d" by simp
  finally have d: "d = strip s @ r" by simp
  have "s = l @ d" by (simp add: l_def d_def)
  with d have s: "s = l @ strip s @ r" by simp
  have al: "list_all is_space l" unfolding l_def list_all_iff by (auto dest: set_takeWhileD)
  have ar: "list_all is_space r" unfolding r_def list_all_iff by (auto dest: set_takeWhileD)
  have ends: "\<not> is_space (hd (strip s)) \<and> \<not> is_space (last (strip s))" if ne: "strip s \<noteq> []"
  proof -
    from ne d have dne: "d \<noteq> []" by auto
    then have "\<not> is_space (hd d)" unfolding d_def by (rule hd_dropWhile)
    moreover have "hd d = hd (strip s)" using d ne by (metis hd_append2)
    moreover have "dropWhile is_space (rev d) \<noteq> []" using ne st by auto
    then have "\<not> is_space (hd (dropWhile is_space (rev d)))" by (rule hd_dropWhile)
    moreover have "last (strip s) = hd (dropWhile is_space (rev d))"
      using ne st by (simp add: last_rev)
    ultimately show ?thesis by simp
  qed
  from s al ar ends show ?thesis by blast
qed

lemma not_digit_special [simp]:
  "\<not> is_digit (CHR ''_'')" "\<not> is_digit (CHR ''-'')" "\<not> is_digit (CHR ''+'')"
  by (simp_all add: is_digit_def)

lemma underscores_single_Cons:
  "c \<noteq> CHR ''_'' \<Longrightarrow> underscores_single (c # cs) = underscores_single cs"
  by (cases cs) simp_all

lemma literal_tail_digit:
  "is_digit c \<Longrightarrow> literal_tail (c # cs) = literal_tail cs"
proof -
  assume d: "is_digit c"
  then have "c \<noteq> CHR ''_''" by auto
  then have "underscores_single (c # cs) = underscores_single cs"
    by (rule underscores_single_Cons)
  then show ?thesis using d by (cases "cs = []") (simp_all add: literal_tail_def)
qed

lemma literal_tail_underscore:
  "literal_tail (CHR ''_'' # cs) \<longleftrightarrow> cs \<noteq> [] \<and> is_digit (hd cs) \<and> literal_tail (tl cs)"
proof (cases cs)
  case Nil
  then show ?thesis by (simp add: literal_tail_def)
next
  case (Cons d ds)
  show ?thesis
  proof (cases "is_digit d")
    case True
    then have "d \<noteq> CHR ''_''" by auto
    then have "literal_tail (CHR ''_'' # d # ds) = literal_tail (d # ds)"
      by (simp add: literal_tail_def)
    then show ?thesis using Cons True by (simp add: literal_tail_digit)
  next
    case False
    then show ?thesis using Cons by (auto simp: literal_tail_def)
  qed
qed

lemma literal_tail_other:
  "\<not> is_digit c \<Longrightarrow> c \<noteq> CHR ''_'' \<Longrightarrow> \<not> literal_tail (c # cs)"
  by (simp add: literal_tail_def)

lemma py_digits_iff:
  "py_digits acc cs = Some v \<longleftrightarrow>
   literal_tail cs \<and> v = foldl (\<lambda>acc c. 10 * acc + digit_val c) acc (filter is_digit cs)"
proof (induction acc cs rule: py_digits.induct)
  case (1 acc)
  then show ?case by (auto simp: literal_tail_def)
next
  case (2 acc c cs)
  show ?case
  proof (cases "is_digit c")
    case True
    with "2.IH"(1) show ?thesis by (simp add: literal_tail_digit)
  next
    case nd: False
    show ?thesis
    proof (cases "c = CHR ''_''")
      case False
      with nd show ?thesis by (simp add: literal_tail_other)
    next
      case us: True
      show ?thesis
      proof (cases cs)
        case Nil
        with nd us show ?thesis by (simp add: literal_tail_underscore)
      next
        case (Cons d ds)
        show ?thesis
        proof (cases "is_digit d")
          case True
          with "2.IH"(2) [OF nd us Cons True] nd us Cons show ?thesis
            by (simp add: literal_tail_underscore)
        next
          case False
          with nd us Cons show ?thesis by (simp add: literal_tail_underscore)
        qed
      qed
    qed
  qed
qed

lemma literal_core_iff:
  "(case u of
      [] \<Rightarrow> None
    | c # cs \<Rightarrow>
        if is_digit c \<and> length (filter is_digit u) \<le> int_max_str_digits
        then py_digits (digit_val c) cs
        else None) = Some v \<longleftrightarrow>
   int_literal_body u \<and> v = decimal_value u"
proof (cases u)
  case Nil
  then show ?thesis by (simp add: int_literal_body_def)
next
  case (Cons c cs)
  then show ?thesis
    by (auto simp: int_literal_body_def decimal_value_def py_digits_iff)
qed

lemma int_literal_body_no_sign:
  "int_literal_body (c # cs) \<Longrightarrow> c \<noteq> CHR ''-'' \<and> c \<noteq> CHR ''+''"
  by (auto simp: int_literal_body_def)

lemma py_int_iff:
  "py_int s = Some v \<longleftrightarrow>
   (int_literal_body (strip s) \<and> v = decimal_value (strip s)) \<or>
   (\<exists>b. strip s = CHR ''+'' # b \<and> int_literal_body b \<and> v = decimal_value b) \<or>
   (\<exists>b. strip s = CHR ''-'' # b \<and> int_literal_body b \<and> v = - decimal_value b)"
proof (cases "strip s")
  case Nil
  then show ?thesis by (simp add: py_int_def int_literal_body_def)
next
  case (Cons c r)
  consider (minus) "c = CHR ''-''" | (plus) "c = CHR ''+''"
    | (none) "c \<noteq> CHR ''-''" "c \<noteq> CHR ''+''" by blast
  then show ?thesis
  proof cases
    case minus
    have "py_int s = map_option uminus
      (case r of [] \<Rightarrow> None
       | c # cs \<Rightarrow> if is_digit c \<and> length (filter is_digit r) \<le> int_max_str_digits
           then py_digits (digit_val c) cs else None)"
      using Cons minus by (simp add: py_int_def Let_def split: list.split)
    then have "py_int s = Some v \<longleftrightarrow> int_literal_body r \<and> - v = decimal_value r"
      using literal_core_iff [of r "- v"] by (auto simp: map_option_case split: option.splits)
    moreover have "\<not> int_literal_body (strip s)"
      using Cons minus int_literal_body_no_sign by auto
    ultimately show ?thesis using Cons minus by auto
  next
    case plus
    have "py_int s =
      (case r of [] \<Rightarrow> None
       | c # cs \<Rightarrow> if is_digit c \<and> length (filter is_digit r) \<le> int_max_str_digits
           then py_digits (digit_val c) cs else None)"
      using Cons plus by (simp add: py_int_def Let_def option.map_ident split: list.split)
    then have "py_int s = Some v \<longleftrightarrow> int_literal_body r \<and> v = decimal_value r"
      using literal_core_iff [of r v] by simp
    moreover have "\<not> int_literal_body (strip s)"
      using Cons plus int_literal_body_no_sign by auto
    ultimately show ?thesis using Cons plus by auto
  next
    case none
    have "py_int s =
      (case strip s of [] \<Rightarrow> None
       | c # cs \<Rightarrow> if is_digit c \<and> length (filter is_digit (strip s)) \<le> int_max_str_digits
           then py_digits (digit_val c) cs else None)"
      using Cons none by (simp add: py_int_def Let_def option.map_ident split: list.split)
    then have "py_int s = Some v \<longleftrightarrow> int_literal_body (strip s) \<and> v = decimal_value (strip s)"
      using literal_core_iff [of "strip s" v] by simp
    then show ?thesis using Cons none by auto
  qed
qed

section \<open>Properties of the Reporter\<close>

subsection \<open>Sorting\<close>

lemma py_sorted_stable: "stable_sorted_by key rv xs (py_sorted key rv xs)"
proof (cases rv)
  case True
  have "filter (\<lambda>x. key x = v) (rev (sort_key key (rev xs))) = filter (\<lambda>x. key x = v) xs" for v
  proof -
    have "filter (\<lambda>x. key x = v) (rev (sort_key key (rev xs))) =
      rev (filter (\<lambda>x. key x = v) (sort_key key (rev xs)))" by (simp add: rev_filter)
    also have "\<dots> = rev (filter (\<lambda>x. key x = v) (rev xs))" by (simp only: sort_key_stable)
    also have "\<dots> = filter (\<lambda>x. key x = v) xs" by (simp add: rev_filter)
    finally show ?thesis .
  qed
  moreover have "sorted (rev (map key (rev (sort_key key (rev xs)))))"
    by (simp add: rev_map)
  ultimately show ?thesis using True by (simp add: stable_sorted_by_def py_sorted_def)
next
  case False
  then show ?thesis by (simp add: stable_sorted_by_def py_sorted_def sort_key_stable)
qed

lemma mset_sorted_stats: "mset (sorted_stats a st) = mset st"
  by (cases "sort_by a"; cases "reverse a") (simp_all add: sorted_stats_def py_sorted_def)

lemma length_sorted_stats: "length (sorted_stats a st) = length st"
  using mset_sorted_stats by (metis size_mset)

lemma total_sorted_stats: "total_size_of (sorted_stats a st) = total_size_of st"
proof -
  have "total_size_of xs = sum_mset (image_mset (\<lambda>item. st_size (snd item)) (mset xs))" for xs
    unfolding total_size_of_def by (metis mset_map sum_mset_sum_list)
  then show ?thesis by (simp add: mset_sorted_stats)
qed

subsection \<open>The percentage loop\<close>

lemma percent_of_pct: "percent_of x t = Inr (pct x t)"
  by (simp add: percent_of_def pct_def true_div_def)

lemma percent_loop_rows: "percent_loop t c items = Inr (rows_from t c items)"
  by (induction items arbitrary: c) (auto simp: percent_of_pct Let_def)

lemma processed_stats_rows:
  "processed_stats a st = Inr (rows_from (total_size_of st) 0 (sorted_stats a st))"
  by (simp add: processed_stats_def Let_def percent_loop_rows total_sorted_stats)

lemma length_rows_from: "length (rows_from t c items) = length items"
  by (induction items arbitrary: c) auto



lemma rows_from_percent:
  "r \<in> set (rows_from t c items) \<Longrightarrow> row_percent r = pct (st_size (row_data r)) t"
  by (induction items arbitrary: c) (auto simp: row_percent_def row_data_def)

lemma rows_from_zero:
  "\<not> 0 < t \<Longrightarrow> r \<in> set (rows_from t c items) \<Longrightarrow> row_percent r = 0 \<and> row_cum_percent r = 0"
  by (induction items arbitrary: c) (auto simp: row_percent_def row_cum_percent_def pct_def)

lemma pct_add: "pct (x + y) t = pct x t + pct y t"
  by (simp add: pct_def add_divide_distrib distrib_right)

lemma rows_from_percent_sum:
  "sum_list (map row_percent (rows_from t c items)) = pct (total_size_of items) t"
proof (induction items arbitrary: c)
  case Nil
  then show ?case by (simp add: total_size_of_def pct_def)
next
  case (Cons item rest)
  then show ?case by (simp add: total_size_of_def pct_add row_percent_def)
qed

lemma rows_from_last_cum:
  "items \<noteq> [] \<Longrightarrow>
   row_cum_percent (last (rows_from t c items)) = pct (c + total_size_of items) t"
proof (induction items arbitrary: c)
  case Nil
  then show ?case by simp
next
  case (Cons item rest)
  show ?case
  proof (cases "rest = []")
    case True
    then show ?thesis by (simp add: total_size_of_def row_cum_percent_def)
  next
    case False
    then have "rows_from t (c + st_size (snd item)) rest \<noteq> []"
      by (cases rest) auto
    with Cons.IH [OF False, of "c + st_size (snd item)"] show ?thesis
      by (simp add: total_size_of_def add.assoc)
  qed
qed

lemma pct_total: "0 < t \<Longrightarrow> pct t t = 100"
  by (simp add: pct_def)

subsection \<open>Display\<close>

lemma py_tail_last_rows: "py_tail limit xs = last_rows (nat limit) xs"
proof (cases "limit > 0")
  case False
  then show ?thesis by (simp add: py_tail_def last_rows_def)
next
  case pos: True
  show ?thesis
  proof (cases "int (length xs) - limit < 0")
    case True
    then have "length xs \<le> nat limit" by linarith
    then show ?thesis using True pos by (simp add: py_tail_def last_rows_def)
  next
    case False
    with pos have "nat (int (length xs) - limit) = length xs - nat limit" by linarith
    then show ?thesis using False pos
      by (simp add: py_tail_def last_rows_def take_rev)
  qed
qed


subsection \<open>Exceptions of the percentage loop\<close>

lemma float_overflow_unit: "0 \<le> q \<Longrightarrow> q \<le> 1 \<Longrightarrow> \<not> float_overflow q"
proof -
  assume q: "0 \<le> q" "q \<le> 1"
  have "(1::rat) < 2 ^ 1024 - 2 ^ 970" by simp
  with q show ?thesis by (simp add: float_overflow_def)
qed

lemma div_raises_part:
  assumes "0 < t" and "0 \<le> x" and "x \<le> t"
  shows "div_raises x t = None"
proof -
  have "0 \<le> (of_int x :: rat) / of_int t" using assms by simp
  moreover have "(of_int x :: rat) / of_int t \<le> 1" using assms by simp
  ultimately have "\<not> float_overflow (of_int x / of_int t)" by (rule float_overflow_unit)
  then show ?thesis using assms(1) by (simp add: div_raises_def)
qed

lemma div_raises_not_zero_division: "0 < t \<Longrightarrow> div_raises x t \<noteq> Some ZeroDivisionError"
  by (simp add: div_raises_def)

lemma percent_raises_not_zero_division: "percent_raises x t \<noteq> Some ZeroDivisionError"
  by (simp add: percent_raises_def div_raises_def)

lemma loop_raises_not_zero_division: "loop_raises t c items \<noteq> Some ZeroDivisionError"
proof (induction items arbitrary: c)
  case Nil
  then show ?case by simp
next
  case (Cons item rest)
  obtain name data where item: "item = (name, data)" by (cases item)
  show ?case
    using Cons.IH [of "c + st_size data"] percent_raises_not_zero_division
    by (auto simp: item Let_def split: option.splits)
qed

lemma loop_raises_no_total: "\<not> 0 < t \<Longrightarrow> loop_raises t c items = None"
proof (induction items arbitrary: c)
  case Nil
  then show ?case by simp
next
  case (Cons item rest)
  obtain name data where item: "item = (name, data)" by (cases item)
  show ?case using Cons by (simp add: item percent_raises_def Let_def)
qed

lemma loop_raises_nonneg:
  assumes "0 < t" and "0 \<le> c"
    and "\<forall>item \<in> set items. 0 \<le> st_size (snd item)"
    and "c + total_size_of items \<le> t"
  shows "loop_raises t c items = None"
  using assms(2-4)
proof (induction items arbitrary: c)
  case Nil
  then show ?case by simp
next
  case (Cons item rest)
  obtain name data where item: "item = (name, data)" by (cases item)
  have sz: "0 \<le> st_size data" using Cons.prems(2) by (simp add: item)
  have rest: "\<forall>item \<in> set rest. 0 \<le> st_size (snd item)" using Cons.prems(2) by simp
  have tot: "total_size_of (item # rest) = st_size data + total_size_of rest"
    by (simp add: total_size_of_def item)
  have nn: "0 \<le> total_size_of rest"
    using rest unfolding total_size_of_def by (induction rest) auto
  have le1: "st_size data \<le> t" using Cons.prems(1,3) tot nn by linarith
  have le2: "c + st_size data \<le> t" using Cons.prems(3) tot nn by linarith
  have p1: "percent_raises (st_size data) t = None"
    using assms(1) sz le1 by (simp add: percent_raises_def div_raises_part)
  have p2: "percent_raises (c + st_size data) t = None"
    using assms(1) sz Cons.prems(1) le2 by (simp add: percent_raises_def div_raises_part)
  have "loop_raises t (c + st_size data) rest = None"
  proof (rule Cons.IH)
    show "0 \<le> c + st_size data" using sz Cons.prems(1) by simp
    show "\<forall>item \<in> set rest. 0 \<le> st_size (snd item)" by (rule rest)
    show "c + st_size data + total_size_of rest \<le> t" using Cons.prems(3) tot by simp
  qed
  then show ?case by (simp add: item Let_def p1 p2)
qed

lemma set_sorted_stats: "set (sorted_stats a st) = set st"
  using mset_sorted_stats [of a st] by (metis set_mset_mset)

lemma percentages_raise_not_zero_division:
  "percentages_raise a st \<noteq> Some ZeroDivisionError"
  by (simp add: percentages_raise_def Let_def loop_raises_not_zero_division)

lemma percentages_raise_no_total:
  "\<not> 0 < total_size_of st \<Longrightarrow> percentages_raise a st = None"
  by (simp add: percentages_raise_def Let_def total_sorted_stats loop_raises_no_total)

lemma percentages_raise_nonneg:
  assumes "\<forall>item \<in> set st. 0 \<le> st_size (snd item)"
  shows "percentages_raise a st = None"
proof (cases "0 < total_size_of st")
  case False
  then show ?thesis by (rule percentages_raise_no_total)
next
  case True
  have "loop_raises (total_size_of st) 0 (sorted_stats a st) = None"
  proof (rule loop_raises_nonneg)
    show "0 < total_size_of st" by (rule True)
    show "(0::int) \<le> 0" by simp
    show "\<forall>item \<in> set (sorted_stats a st). 0 \<le> st_size (snd item)"
      using assms by (simp add: set_sorted_stats)
    show "0 + total_size_of (sorted_stats a st) \<le> total_size_of st"
      by (simp add: total_sorted_stats)
  qed
  then show ?thesis by (simp add: percentages_raise_def Let_def total_sorted_stats)
qed

section \<open>The properties claimed by the specification\<close>

text \<open>
  Claim C1. Let \<open>w\<close> be the working name, the group the hash pattern captures from the
  basename of the path. With \<open>keep_version\<close> the result is \<open>w\<close> itself. Without it the
  result is the part of \<open>w\<close> before the first dash that a digit follows (\<open>take i w\<close>
  for the least such position \<open>i\<close>), and all of \<open>w\<close> when no dash is followed by a
  digit. For the store entries of \<open>go-1.25.4\<close>, \<open>python3-3.9\<close> and \<open>source\<close> the results
  are \<open>go\<close>, \<open>python3\<close> and \<open>source\<close>.
\<close>

theorem parse_package_name_version_boundary:
  "(match_hash (basename p) = Some w \<longrightarrow>
      parse_package_name p True = w \<and>
      (if \<exists>i. dash_digit_at w i
       then \<exists>i. dash_digit_at w i \<and> (\<forall>j<i. \<not> dash_digit_at w j) \<and>
              parse_package_name p False = take i w
       else parse_package_name p False = w)) \<and>
   parse_package_name ''/nix/store/aaaaaaaaaaaaaaaaaaaaaaaaaaaaaaaa-go-1.25.4'' False = ''go'' \<and>
   parse_package_name ''/nix/store/aaaaaaaaaaaaaaaaaaaaaaaaaaaaaaaa-go-1.25.4'' True = ''go-1.25.4'' \<and>
   parse_package_name ''/nix/store/aaaaaaaaaaaaaaaaaaaaaaaaaaaaaaaa-python3-3.9'' False = ''python3'' \<and>
   parse_package_name ''/nix/store/aaaaaaaaaaaaaaaaaaaaaaaaaaaaaaaa-source'' False = ''source''"
proof -
  have general: "parse_package_name p True = w \<and>
      (if \<exists>i. dash_digit_at w i
       then \<exists>i. dash_digit_at w i \<and> (\<forall>j<i. \<not> dash_digit_at w j) \<and>
              parse_package_name p False = take i w
       else parse_package_name p False = w)"
    if m: "match_hash (basename p) = Some w"
  proof -
    from m have nl: "LF \<notin> set w" by (rule match_hash_noLF)
    have kv: "parse_package_name p True = w"
      using m by (simp add: parse_package_name_def)
    have nv: "parse_package_name p False = strip_version w"
      using m by (simp add: parse_package_name_def)
    show ?thesis
    proof (cases "\<exists>i. dash_digit_at w i")
      case True
      define i where "i = (LEAST i. dash_digit_at w i)"
      have i: "dash_digit_at w i" unfolding i_def using True by (rule LeastI_ex)
      have least: "\<And>j. j < i \<Longrightarrow> \<not> dash_digit_at w j"
        unfolding i_def by (rule not_less_Least)
      have "match_version w = Some (take i w)"
        using nl i least by (rule match_version_boundary)
      then have "parse_package_name p False = take i w"
        using nv by (simp add: strip_version_def)
      with i least have "\<exists>i. dash_digit_at w i \<and> (\<forall>j<i. \<not> dash_digit_at w j) \<and>
               parse_package_name p False = take i w" by blast
      with True kv show ?thesis by simp
    next
      case False
      then have "match_version w = Some w"
        using nl by (intro match_version_no_boundary) auto
      then have "parse_package_name p False = w"
        using nv by (simp add: strip_version_def)
      with False kv show ?thesis by simp
    qed
  qed
  have e1: "parse_package_name ''/nix/store/aaaaaaaaaaaaaaaaaaaaaaaaaaaaaaaa-go-1.25.4'' False = ''go''"
    by code_simp
  have e2: "parse_package_name ''/nix/store/aaaaaaaaaaaaaaaaaaaaaaaaaaaaaaaa-go-1.25.4'' True = ''go-1.25.4''"
    by code_simp
  have e3: "parse_package_name ''/nix/store/aaaaaaaaaaaaaaaaaaaaaaaaaaaaaaaa-python3-3.9'' False = ''python3''"
    by code_simp
  have e4: "parse_package_name ''/nix/store/aaaaaaaaaaaaaaaaaaaaaaaaaaaaaaaa-source'' False = ''source''"
    by code_simp
  from general e1 e2 e3 e4 show ?thesis by blast
qed

theorem parse_package_name_version_boundary_witness:
  "match_hash (basename ''/nix/store/aaaaaaaaaaaaaaaaaaaaaaaaaaaaaaaa-gcc-wrapper-13.2.0'') = Some ''gcc-wrapper-13.2.0'' \<and>
   dash_digit_at ''gcc-wrapper-13.2.0'' 11 \<and>
   parse_package_name ''/nix/store/aaaaaaaaaaaaaaaaaaaaaaaaaaaaaaaa-gcc-wrapper-13.2.0'' True = ''gcc-wrapper-13.2.0'' \<and>
   parse_package_name ''/nix/store/aaaaaaaaaaaaaaaaaaaaaaaaaaaaaaaa-gcc-wrapper-13.2.0'' False = ''gcc-wrapper''"
proof -
  have m: "match_hash (basename ''/nix/store/aaaaaaaaaaaaaaaaaaaaaaaaaaaaaaaa-gcc-wrapper-13.2.0'') = Some ''gcc-wrapper-13.2.0''"
    by code_simp
  have d: "dash_digit_at ''gcc-wrapper-13.2.0'' 11"
    by code_simp
  have f: "parse_package_name ''/nix/store/aaaaaaaaaaaaaaaaaaaaaaaaaaaaaaaa-gcc-wrapper-13.2.0'' False = ''gcc-wrapper''"
    by code_simp
  from parse_package_name_version_boundary
    [of "''/nix/store/aaaaaaaaaaaaaaaaaaaaaaaaaaaaaaaa-gcc-wrapper-13.2.0''" "''gcc-wrapper-13.2.0''"] m
  have "parse_package_name ''/nix/store/aaaaaaaaaaaaaaaaaaaaaaaaaaaaaaaa-gcc-wrapper-13.2.0'' True = ''gcc-wrapper-13.2.0''"
    by blast
  with m d f show ?thesis by blast
qed

text \<open>
  Claim C4, as stated, fails where the remainder holds a line feed: the dot of the hash
  pattern does not match it, so a basename of 32 hash characters, a dash and the
  remainder \<open>a\<close>, line feed, \<open>b\<close> does not match and comes back whole.
\<close>

theorem hash_prefix_line_feed_counterexample:
  "hash_prefixed (''aaaaaaaaaaaaaaaaaaaaaaaaaaaaaaaa-a'' @ [CHR 0x0A] @ ''b'') ''aaaaaaaaaaaaaaaaaaaaaaaaaaaaaaaa'' (''a'' @ [CHR 0x0A] @ ''b'') \<and>
   parse_package_name (''aaaaaaaaaaaaaaaaaaaaaaaaaaaaaaaa-a'' @ [CHR 0x0A] @ ''b'') True = ''aaaaaaaaaaaaaaaaaaaaaaaaaaaaaaaa-a'' @ [CHR 0x0A] @ ''b'' \<and>
   parse_package_name (''aaaaaaaaaaaaaaaaaaaaaaaaaaaaaaaa-a'' @ [CHR 0x0A] @ ''b'') True \<noteq> ''a'' @ [CHR 0x0A] @ ''b''"
  by code_simp

text \<open>
  Claim C4, amended. When the basename of the path is 32 lower-case alphanumeric
  characters, a dash and a remainder without line feed, the 33 characters are stripped for
  both values of \<open>keep_version\<close>: with it the result is the remainder, without it the
  version stripping of lines 64 to 68 applied to the remainder. When the basename is not
  32 such characters followed by a dash, it is returned unchanged.
\<close>

theorem hash_prefix_stripped:
  "(hash_prefixed (basename p) h r \<and> LF \<notin> set r \<longrightarrow>
      parse_package_name p True = r \<and> parse_package_name p False = strip_version r) \<and>
   ((\<forall>h r. \<not> hash_prefixed (basename p) h r) \<longrightarrow>
      parse_package_name p keep_version = basename p)"
proof (intro conjI impI)
  assume a: "hash_prefixed (basename p) h r \<and> LF \<notin> set r"
  then have m: "match_hash (basename p) = Some r" using match_hash_prefixed by blast
  show "parse_package_name p True = r" using m by (simp add: parse_package_name_def)
  show "parse_package_name p False = strip_version r" using m by (simp add: parse_package_name_def)
next
  assume n: "\<forall>h r. \<not> hash_prefixed (basename p) h r"
  have "match_hash (basename p) = None"
  proof (cases "match_hash (basename p)")
    case None
    then show ?thesis .
  next
    case (Some w)
    then show ?thesis using match_hash_SomeD n by blast
  qed
  then show "parse_package_name p keep_version = basename p"
    by (simp add: parse_package_name_def)
qed

theorem hash_prefix_stripped_witness:
  "hash_prefixed (basename ''/nix/store/aaaaaaaaaaaaaaaaaaaaaaaaaaaaaaaa-go-1.25.4'') ''aaaaaaaaaaaaaaaaaaaaaaaaaaaaaaaa'' ''go-1.25.4'' \<and>
   LF \<notin> set ''go-1.25.4'' \<and>
   parse_package_name ''/nix/store/aaaaaaaaaaaaaaaaaaaaaaaaaaaaaaaa-go-1.25.4'' True = ''go-1.25.4'' \<and>
   parse_package_name ''/nix/store/aaaaaaaaaaaaaaaaaaaaaaaaaaaaaaaa-go-1.25.4'' False = strip_version ''go-1.25.4'' \<and>
   (\<forall>h r. \<not> hash_prefixed (basename ''/nix/store/.links'') h r) \<and>
   parse_package_name ''/nix/store/.links'' False = ''.links''"
proof -
  have hp: "hash_prefixed (basename ''/nix/store/aaaaaaaaaaaaaaaaaaaaaaaaaaaaaaaa-go-1.25.4'') ''aaaaaaaaaaaaaaaaaaaaaaaaaaaaaaaa'' ''go-1.25.4''"
    by code_simp
  have nl: "LF \<notin> set ''go-1.25.4''"
    by code_simp
  have b: "basename ''/nix/store/.links'' = ''.links''"
    by code_simp
  have no: "\<forall>h r. \<not> hash_prefixed (basename ''/nix/store/.links'') h r"
    unfolding b by (auto simp: hash_prefixed_def dest: arg_cong [where f = length])
  from hash_prefix_stripped [of "''/nix/store/aaaaaaaaaaaaaaaaaaaaaaaaaaaaaaaa-go-1.25.4''" "''aaaaaaaaaaaaaaaaaaaaaaaaaaaaaaaa''" "''go-1.25.4''"] hp nl
  have 1: "parse_package_name ''/nix/store/aaaaaaaaaaaaaaaaaaaaaaaaaaaaaaaa-go-1.25.4'' True = ''go-1.25.4'' \<and>
    parse_package_name ''/nix/store/aaaaaaaaaaaaaaaaaaaaaaaaaaaaaaaa-go-1.25.4'' False = strip_version ''go-1.25.4''"
    by blast
  from hash_prefix_stripped [of "''/nix/store/.links''" _ _ False] no b
  have 2: "parse_package_name ''/nix/store/.links'' False = ''.links''"
    by simp
  from hp nl 1 2 no show ?thesis by blast
qed

text \<open>
  Claim C9. The batch size is the number of entries divided by 100 (integer division),
  clamped into the range from 100 to 1000: 100 when the quotient is below 100, 1000 when
  it is above 1000, the quotient otherwise. The batches of that size partition the path
  list: joined in order they give the list back, and none is empty or longer than the
  batch size.
\<close>

theorem chunk_size_clamp:
  "chunk_size n = (if n div 100 < 100 then 100 else if n div 100 > 1000 then 1000 else n div 100) \<and>
   100 \<le> chunk_size n \<and> chunk_size n \<le> 1000 \<and>
   concat (chunks_from 0 (chunk_size (length all_paths)) all_paths) = all_paths \<and>
   list_all (\<lambda>c. c \<noteq> [] \<and> length c \<le> chunk_size (length all_paths))
     (chunks_from 0 (chunk_size (length all_paths)) all_paths)"
proof -
  have 1: "chunk_size n = (if n div 100 < 100 then 100 else if n div 100 > 1000 then 1000 else n div 100)"
    by (simp add: chunk_size_def)
  have 2: "100 \<le> chunk_size n \<and> chunk_size n \<le> 1000" by (simp add: chunk_size_def)
  have "0 < chunk_size (length all_paths)" by (simp add: chunk_size_def)
  then have 3: "concat (chunks_from 0 (chunk_size (length all_paths)) all_paths) = all_paths"
    by (simp add: chunks_from_concat)
  from 1 2 3 chunks_from_bounded show ?thesis by blast
qed

theorem chunk_size_clamp_witness:
  "chunk_size 5 = 100 \<and> chunk_size 42000 = 420 \<and> chunk_size 250000 = 1000 \<and>
   chunks_from 0 (chunk_size (length [''a'', ''b''])) [''a'', ''b''] = [[''a'', ''b'']]"
proof -
  have 1: "chunk_size 5 = 100"
    using chunk_size_clamp [of 5 "[]"] by auto
  have 2: "chunk_size 42000 = 420"
    using chunk_size_clamp [of 42000 "[]"] by auto
  have 3: "chunk_size 250000 = 1000"
    using chunk_size_clamp [of 250000 "[]"] by auto
  have 4: "chunks_from 0 (chunk_size (length [''a'', ''b''])) [''a'', ''b''] = [[''a'', ''b'']]"
    by code_simp
  from 1 2 3 4 show ?thesis by blast
qed

text \<open>
  Claim C2, on the code. A batch advances the progress bar once per line of the success
  channel that is parsed into a measurement (in human-readable mode; there is no bar
  otherwise), not once per submitted path. So when a batch of two paths is submitted and
  the sizing facility prints a size line for the first and a diagnostic for the second,
  the progress bar, created with a total of two, advances once.
\<close>

theorem progress_tick_per_parsed_line:
  "ticks (process_chunk a du st chunk) =
     ticks st + (if human_readable a \<and> chunk \<noteq> []
                 then length (filter (\<lambda>l. two_fields l \<and> py_int (first_field l) \<noteq> None)
                        (splitlines (stdout (du chunk))))
                 else 0) \<and>
   length [''/nix/store/aaaaaaaaaaaaaaaaaaaaaaaaaaaaaaaa-go-1.25.4'', ''/nix/store/lost+found''] = 2 \<and>
   chunks_from 0 (chunk_size 2) [''/nix/store/aaaaaaaaaaaaaaaaaaaaaaaaaaaaaaaa-go-1.25.4'', ''/nix/store/lost+found''] =
     [[''/nix/store/aaaaaaaaaaaaaaaaaaaaaaaaaaaaaaaa-go-1.25.4'', ''/nix/store/lost+found'']] \<and>
   ticks (measure_store (default_args\<lparr>human_readable := True\<rparr>)
     (\<lambda>chunk. \<lparr>stdout = ''500'' @ [CHR 0x09] @ ''/nix/store/aaaaaaaaaaaaaaaaaaaaaaaaaaaaaaaa-go-1.25.4'' @ [CHR 0x0A],
                stderr = ''du: cannot read directory: Permission denied'' @ [CHR 0x0A]\<rparr>)
     [''/nix/store/aaaaaaaaaaaaaaaaaaaaaaaaaaaaaaaa-go-1.25.4'', ''/nix/store/lost+found'']) = 1"
proof -
  have 1: "length [''/nix/store/aaaaaaaaaaaaaaaaaaaaaaaaaaaaaaaa-go-1.25.4'', ''/nix/store/lost+found''] = 2"
    by simp
  have 2: "chunks_from 0 (chunk_size 2) [''/nix/store/aaaaaaaaaaaaaaaaaaaaaaaaaaaaaaaa-go-1.25.4'', ''/nix/store/lost+found''] =
     [[''/nix/store/aaaaaaaaaaaaaaaaaaaaaaaaaaaaaaaa-go-1.25.4'', ''/nix/store/lost+found'']]"
    by code_simp
  have 3: "ticks (measure_store (default_args\<lparr>human_readable := True\<rparr>)
     (\<lambda>chunk. \<lparr>stdout = ''500'' @ [CHR 0x09] @ ''/nix/store/aaaaaaaaaaaaaaaaaaaaaaaaaaaaaaaa-go-1.25.4'' @ [CHR 0x0A],
                stderr = ''du: cannot read directory: Permission denied'' @ [CHR 0x0A]\<rparr>)
     [''/nix/store/aaaaaaaaaaaaaaaaaaaaaaaaaaaaaaaa-go-1.25.4'', ''/nix/store/lost+found'']) = 1"
    by code_simp
  from ticks_process_chunk 1 2 3 show ?thesis by blast
qed

text \<open>
  Claim C3, as stated, fails on a negative size: the line \<open>-5\<close>, tab, \<open>/nix/store/x\<close> has
  two fields and its first field is no non-negative integer, yet \<open>int\<close> accepts it and
  the line is aggregated with size \<open>-5\<close>.
\<close>

theorem negative_size_line_counterexample:
  "two_fields (''-5'' @ [CHR 0x09] @ ''/nix/store/x'') \<and>
   py_int (first_field (''-5'' @ [CHR 0x09] @ ''/nix/store/x'')) = Some (- 5) \<and>
   stats (process_line default_args init_state (''-5'' @ [CHR 0x09] @ ''/nix/store/x'')) =
     [(''x'', \<lparr>st_size = - 5, st_count = 1\<rparr>)]"
  by code_simp

text \<open>
  Claim C3, amended. A line of the success channel changes the aggregated stats if and
  only if it has exactly two tab-separated fields and \<open>int\<close> accepts the first one. Such
  a line adds its size and one occurrence to the identity of the path in its second
  field. Every other line leaves the whole state as it is, and no line of the success
  channel reaches the error set or the messages printed in verbose mode. The loop body
  has no failing branch.

  What \<open>int\<close> accepts is a decimal literal, after an optional sign, between white space
  that is stripped: the literal is made of digits, with single underscores allowed
  between digits, and has at most 4300 digits; its value is the number the digits
  denote, negated after a minus sign. The white space is the characters 9 to 13, 32, 133
  and 160; the separators 28 to 31 are not white space to \<open>int\<close>, so a field that ends
  in one is refused.
\<close>

theorem success_line_contributes:
  "(stats (process_line a st line) \<noteq> stats st \<longleftrightarrow>
      two_fields line \<and> py_int (first_field line) \<noteq> None) \<and>
   (two_fields line \<and> py_int (first_field line) = Some size_kb \<longrightarrow>
      stats (process_line a st line) =
        accumulate (parse_package_name (second_field line) (with_version a)) size_kb (stats st)) \<and>
   (\<not> (two_fields line \<and> py_int (first_field line) \<noteq> None) \<longrightarrow>
      process_line a st line = st) \<and>
   encountered_errors (process_line a st line) = encountered_errors st \<and>
   echoed (process_line a st line) = echoed st \<and>
   (py_int s = Some v \<longleftrightarrow>
      (int_literal_body (strip s) \<and> v = decimal_value (strip s)) \<or>
      (\<exists>b. strip s = CHR ''+'' # b \<and> int_literal_body b \<and> v = decimal_value b) \<or>
      (\<exists>b. strip s = CHR ''-'' # b \<and> int_literal_body b \<and> v = - decimal_value b)) \<and>
   (\<exists>l r. s = l @ strip s @ r \<and> list_all is_space l \<and> list_all is_space r \<and>
      (strip s \<noteq> [] \<longrightarrow> \<not> is_space (hd (strip s)) \<and> \<not> is_space (last (strip s)))) \<and>
   (is_space c \<longleftrightarrow> (of_char c :: nat) \<in> {9..13} \<union> {32, 133, 160}) \<and>
   py_int (''5'' @ [CHR 0x1F]) = None \<and>
   process_line default_args init_state (''5'' @ [CHR 0x1F, CHR 0x09] @ ''/nix/store/x'') =
     init_state \<and>
   py_int ([CHR 0xA0] @ ''+1_000 '') = Some 1000 \<and>
   py_int ''1__0'' = None \<and> py_int ''- 5'' = None \<and> py_int ''007'' = Some 7"
proof -
  have good: "stats (process_line a st line) =
        accumulate (parse_package_name (second_field line) (with_version a)) k (stats st)"
    if "two_fields line" "py_int (first_field line) = Some k" for k
    using that by (simp add: process_line_good)
  have bad: "process_line a st line = st"
    if "\<not> (two_fields line \<and> py_int (first_field line) \<noteq> None)"
    using that by (rule process_line_bad)
  have iff: "stats (process_line a st line) \<noteq> stats st \<longleftrightarrow>
      two_fields line \<and> py_int (first_field line) \<noteq> None"
  proof (cases "two_fields line \<and> py_int (first_field line) \<noteq> None")
    case True
    then obtain k where "py_int (first_field line) = Some k" by auto
    with True good [of k] show ?thesis by (simp add: accumulate_changes)
  next
    case False
    with bad show ?thesis by simp
  qed
  have quiet: "encountered_errors (process_line a st line) = encountered_errors st \<and>
     echoed (process_line a st line) = echoed st"
  proof (cases "two_fields line \<and> py_int (first_field line) \<noteq> None")
    case True
    then obtain k where "py_int (first_field line) = Some k" by auto
    with True show ?thesis by (simp add: process_line_good)
  next
    case False
    with bad show ?thesis by simp
  qed
  have e1: "py_int (''5'' @ [CHR 0x1F]) = None" by code_simp
  have e2: "process_line default_args init_state
      (''5'' @ [CHR 0x1F, CHR 0x09] @ ''/nix/store/x'') = init_state" by code_simp
  have e3: "py_int ([CHR 0xA0] @ ''+1_000 '') = Some 1000" by code_simp
  have e4: "py_int ''1__0'' = None" by code_simp
  have e5: "py_int ''- 5'' = None" by code_simp
  have e6: "py_int ''007'' = Some 7" by code_simp
  from good have good': "two_fields line \<and> py_int (first_field line) = Some size_kb \<longrightarrow>
      stats (process_line a st line) =
        accumulate (parse_package_name (second_field line) (with_version a)) size_kb (stats st)"
    by blast
  from bad have bad': "\<not> (two_fields line \<and> py_int (first_field line) \<noteq> None) \<longrightarrow>
      process_line a st line = st" by blast
  show ?thesis
    using iff good' bad' quiet py_int_iff [of s v] strip_parts [of s] is_space_codes [of c]
      e1 e2 e3 e4 e5 e6
    by (intro conjI) (assumption | simp only:)+
qed

theorem success_line_contributes_witness:
  "two_fields (''500'' @ [CHR 0x09] @ ''/nix/store/aaaaaaaaaaaaaaaaaaaaaaaaaaaaaaaa-go-1.25.4'') \<and>
   py_int (first_field (''500'' @ [CHR 0x09] @ ''/nix/store/aaaaaaaaaaaaaaaaaaaaaaaaaaaaaaaa-go-1.25.4'')) = Some 500 \<and>
   stats (process_line default_args init_state (''500'' @ [CHR 0x09] @ ''/nix/store/aaaaaaaaaaaaaaaaaaaaaaaaaaaaaaaa-go-1.25.4'')) =
     [(''go'', \<lparr>st_size = 500, st_count = 1\<rparr>)] \<and>
   \<not> two_fields ''du: no tab here'' \<and>
   process_line default_args init_state ''du: no tab here'' = init_state \<and>
   two_fields (''4k'' @ [CHR 0x09] @ ''/nix/store/x'') \<and>
   py_int (first_field (''4k'' @ [CHR 0x09] @ ''/nix/store/x'')) = None \<and>
   process_line default_args init_state (''4k'' @ [CHR 0x09] @ ''/nix/store/x'') = init_state"
proof -
  let ?good = "''500'' @ [CHR 0x09] @ ''/nix/store/aaaaaaaaaaaaaaaaaaaaaaaaaaaaaaaa-go-1.25.4''"
  let ?bad = "''4k'' @ [CHR 0x09] @ ''/nix/store/x''"
  have g1: "two_fields ?good" by code_simp
  have g2: "py_int (first_field ?good) = Some 500" by code_simp
  have g3: "accumulate (parse_package_name (second_field ?good) (with_version default_args)) 500
      (stats init_state) = [(''go'', \<lparr>st_size = 500, st_count = 1\<rparr>)]" by code_simp
  from success_line_contributes [of default_args init_state ?good 500] g1 g2
  have "stats (process_line default_args init_state ?good) =
      accumulate (parse_package_name (second_field ?good) (with_version default_args)) 500
        (stats init_state)" by blast
  with g3 have g: "stats (process_line default_args init_state ?good) =
      [(''go'', \<lparr>st_size = 500, st_count = 1\<rparr>)]" by simp
  have n1: "\<not> two_fields ''du: no tab here''" by code_simp
  from success_line_contributes [of default_args init_state "''du: no tab here''" 0] n1
  have n: "process_line default_args init_state ''du: no tab here'' = init_state" by blast
  have b1: "two_fields ?bad" by code_simp
  have b2: "py_int (first_field ?bad) = None" by code_simp
  from success_line_contributes [of default_args init_state ?bad 0] b2
  have b: "process_line default_args init_state ?bad = init_state" by blast
  from g1 g2 g n1 n b1 b2 b show ?thesis by blast
qed



text \<open>
  Claim C6, as stated, fails for a store whose entries all have size 0: the total is 0,
  every percentage is 0, and the report still has a row. Here the sizing facility reports
  size 0 for the one entry of the store.
\<close>

theorem zero_total_report_counterexample:
  "stats (measure_store default_args
     (\<lambda>chunk. \<lparr>stdout = ''0'' @ [CHR 0x09] @ ''/nix/store/aaaaaaaaaaaaaaaaaaaaaaaaaaaaaaaa-empty'' @ [CHR 0x0A],
                stderr = ''''\<rparr>)
     [''/nix/store/aaaaaaaaaaaaaaaaaaaaaaaaaaaaaaaa-empty'']) = [(''empty'', \<lparr>st_size = 0, st_count = 1\<rparr>)] \<and>
   total_size_of [(''empty'', \<lparr>st_size = 0, st_count = 1\<rparr>)] = 0 \<and>
   report default_args 0 [(''empty'', \<lparr>st_size = 0, st_count = 1\<rparr>)] =
     Inr [(''empty'', \<lparr>st_size = 0, st_count = 1\<rparr>, 0, 0)] \<and>
   report default_args 0 [(''empty'', \<lparr>st_size = 0, st_count = 1\<rparr>)] \<noteq> Inr []"
  by code_simp

text \<open>
  Claim C6, amended. Computed in exact arithmetic, each row's percent is 100 times the
  identity's size over the total of all sizes when that total is positive; when the total
  is 0 (the store without entries included) every percent and cumulative percent is 0.
  No division by zero occurs, whatever the sizes: the divisions are evaluated only under
  a positive total. For the store without entries the report is empty and the run
  succeeds.

  The exceptions are those of the float divisions of the loop, not of the exact
  quotients: none is raised when the total is not positive or when no size is negative;
  the one that can be raised is OverflowError, when negative sizes cancel in the total
  and a quotient leaves the range of the floats, as for the sizes \<open>2 ^ 1030\<close> and
  \<open>1 - 2 ^ 1030\<close>.
\<close>

theorem percent_of_total_no_division_by_zero:
  "(\<exists>rows. processed_stats a st = Inr rows \<and>
      (\<forall>r \<in> set rows.
         (0 < total_size_of st \<longrightarrow>
            row_percent r = 100 * of_int (st_size (row_data r)) / of_int (total_size_of st)) \<and>
         (\<not> 0 < total_size_of st \<longrightarrow> row_percent r = 0 \<and> row_cum_percent r = 0))) \<and>
   percentages_raise a st \<noteq> Some ZeroDivisionError \<and>
   (\<not> 0 < total_size_of st \<longrightarrow> percentages_raise a st = None) \<and>
   ((\<forall>item \<in> set st. 0 \<le> st_size (snd item)) \<longrightarrow> percentages_raise a st = None) \<and>
   (st = [] \<longrightarrow>
      total_size_of st = 0 \<and> percentages_raise a st = None \<and> report a term_limit st = Inr []) \<and>
   percentages_raise default_args
     [(''a'', \<lparr>st_size = 2 ^ 1030, st_count = 1\<rparr>),
      (''b'', \<lparr>st_size = 1 - 2 ^ 1030, st_count = 1\<rparr>)] = Some OverflowError \<and>
   div_raises (2 ^ 1024 - 2 ^ 970) 1 = Some OverflowError \<and>
   div_raises (2 ^ 1024 - 2 ^ 970 - 1) 1 = None \<and>
   div_raises 1 0 = Some ZeroDivisionError"
proof -
  define rows where "rows = rows_from (total_size_of st) 0 (sorted_stats a st)"
  have p: "processed_stats a st = Inr rows"
    by (simp add: rows_def processed_stats_rows)
  have pos: "row_percent r = 100 * of_int (st_size (row_data r)) / of_int (total_size_of st)"
    if "r \<in> set rows" "0 < total_size_of st" for r
    using that rows_from_percent [of r "total_size_of st" 0 "sorted_stats a st"]
    by (simp add: rows_def pct_def)
  have zero: "row_percent r = 0 \<and> row_cum_percent r = 0"
    if "r \<in> set rows" "\<not> 0 < total_size_of st" for r
    using that rows_from_zero [of "total_size_of st" r 0 "sorted_stats a st"]
    by (simp add: rows_def)
  from p pos zero
  have 1: "\<exists>rows. processed_stats a st = Inr rows \<and>
      (\<forall>r \<in> set rows.
         (0 < total_size_of st \<longrightarrow>
            row_percent r = 100 * of_int (st_size (row_data r)) / of_int (total_size_of st)) \<and>
         (\<not> 0 < total_size_of st \<longrightarrow> row_percent r = 0 \<and> row_cum_percent r = 0))"
    by blast
  have 2: "percentages_raise a st \<noteq> Some ZeroDivisionError"
    by (rule percentages_raise_not_zero_division)
  have 3: "\<not> 0 < total_size_of st \<longrightarrow> percentages_raise a st = None"
    by (simp add: percentages_raise_no_total)
  have 4: "(\<forall>item \<in> set st. 0 \<le> st_size (snd item)) \<longrightarrow> percentages_raise a st = None"
    using percentages_raise_nonneg by blast
  have 5: "st = [] \<longrightarrow>
      total_size_of st = 0 \<and> percentages_raise a st = None \<and> report a term_limit st = Inr []"
  proof
    assume e: "st = []"
    then have t: "total_size_of st = 0" by (simp add: total_size_of_def)
    then have n: "percentages_raise a st = None" by (simp add: percentages_raise_no_total)
    have "length rows = length st"
      by (simp add: rows_def length_rows_from length_sorted_stats)
    with e have "rows = []" by simp
    moreover have "displayed a term_limit [] = []"
      by (simp add: displayed_def py_tail_last_rows last_rows_def)
    ultimately have "report a term_limit st = Inr []" using p by (simp add: report_def)
    with t n
    show "total_size_of st = 0 \<and> percentages_raise a st = None \<and> report a term_limit st = Inr []"
      by simp
  qed
  have 6: "percentages_raise default_args
     [(''a'', \<lparr>st_size = 2 ^ 1030, st_count = 1\<rparr>),
      (''b'', \<lparr>st_size = 1 - 2 ^ 1030, st_count = 1\<rparr>)] = Some OverflowError"
    by (simp add: percentages_raise_def Let_def sorted_stats_def py_sorted_def default_args_def
        total_size_of_def percent_raises_def div_raises_def float_overflow_def)
  have 7: "div_raises (2 ^ 1024 - 2 ^ 970) 1 = Some OverflowError"
    by (simp add: div_raises_def float_overflow_def)
  have 8: "div_raises (2 ^ 1024 - 2 ^ 970 - 1) 1 = None"
    by (simp add: div_raises_def float_overflow_def)
  have 9: "div_raises 1 0 = Some ZeroDivisionError"
    by (simp add: div_raises_def)
  show ?thesis
    using 1 2 3 4 5 6 7 8 9 by (intro conjI) (assumption | simp only:)+
qed

theorem percent_of_total_no_division_by_zero_witness:
  "processed_stats default_args
     [(''a'', \<lparr>st_size = 3, st_count = 1\<rparr>), (''b'', \<lparr>st_size = 1, st_count = 2\<rparr>)] =
     Inr [(''b'', \<lparr>st_size = 1, st_count = 2\<rparr>, 25, 25),
          (''a'', \<lparr>st_size = 3, st_count = 1\<rparr>, 75, 100)] \<and>
   0 < total_size_of [(''a'', \<lparr>st_size = 3, st_count = 1\<rparr>), (''b'', \<lparr>st_size = 1, st_count = 2\<rparr>)] \<and>
   row_percent (''a'', \<lparr>st_size = 3, st_count = 1\<rparr>, 75, 100) =
     100 * of_int (st_size (row_data (''a'', \<lparr>st_size = 3, st_count = 1\<rparr>, 75, 100))) /
       of_int (total_size_of
         [(''a'', \<lparr>st_size = 3, st_count = 1\<rparr>), (''b'', \<lparr>st_size = 1, st_count = 2\<rparr>)]) \<and>
   list_all (\<lambda>item. 0 \<le> st_size (snd item))
     [(''a'', \<lparr>st_size = 3, st_count = 1\<rparr>), (''b'', \<lparr>st_size = 1, st_count = 2\<rparr>)] \<and>
   percentages_raise default_args
     [(''a'', \<lparr>st_size = 3, st_count = 1\<rparr>), (''b'', \<lparr>st_size = 1, st_count = 2\<rparr>)] = None \<and>
   \<not> 0 < total_size_of [(''z'', \<lparr>st_size = 0, st_count = 1\<rparr>)] \<and>
   percentages_raise default_args [(''z'', \<lparr>st_size = 0, st_count = 1\<rparr>)] = None \<and>
   total_size_of [] = 0 \<and>
   percentages_raise default_args [] = None \<and>
   report default_args 0 [] = Inr []"
proof -
  let ?st = "[(''a'', \<lparr>st_size = 3, st_count = 1\<rparr>), (''b'', \<lparr>st_size = 1, st_count = 2\<rparr>)]"
  let ?r = "(''a'', \<lparr>st_size = 3, st_count = 1\<rparr>, 75 :: rat, 100 :: rat)"
  let ?z = "[(''z'', \<lparr>st_size = 0, st_count = 1\<rparr>)]"
  have p: "processed_stats default_args ?st =
     Inr [(''b'', \<lparr>st_size = 1, st_count = 2\<rparr>, 25, 25), ?r]" by code_simp
  have t: "0 < total_size_of ?st" by code_simp
  have nn: "list_all (\<lambda>item. 0 \<le> st_size (snd item)) ?st" by code_simp
  then have nn': "\<forall>item \<in> set ?st. 0 \<le> st_size (snd item)" by (simp only: list_all_iff)
  from percent_of_total_no_division_by_zero [of default_args ?st 0] p t
  have f: "row_percent ?r =
     100 * of_int (st_size (row_data ?r)) / of_int (total_size_of ?st)" by auto
  from percent_of_total_no_division_by_zero [of default_args ?st 0] nn'
  have g: "percentages_raise default_args ?st = None" by blast
  have zt: "\<not> 0 < total_size_of ?z" by code_simp
  from percent_of_total_no_division_by_zero [of default_args ?z 0] zt
  have h: "percentages_raise default_args ?z = None" by blast
  from percent_of_total_no_division_by_zero [of default_args "[]" 0]
  have e: "total_size_of [] = 0 \<and> percentages_raise default_args [] = None \<and>
    report default_args 0 [] = Inr []" by blast
  from p t f nn g zt h e show ?thesis by blast
qed

text \<open>
  Claim C7. In exact arithmetic, when the total size is positive the percents of all rows
  sum to 100 and the cumulative percent of the last row of the full sorted list is 100;
  when the total size is 0 every percent is 0.
\<close>

theorem percents_sum_to_100:
  "(0 < total_size_of st \<longrightarrow>
      (\<exists>rows. processed_stats a st = Inr rows \<and> rows \<noteq> [] \<and>
         sum_list (map row_percent rows) = 100 \<and> row_cum_percent (last rows) = 100)) \<and>
   (total_size_of st = 0 \<longrightarrow>
      (\<exists>rows. processed_stats a st = Inr rows \<and> list_all (\<lambda>r. row_percent r = 0) rows))"
proof (intro conjI impI)
  assume pos: "0 < total_size_of st"
  define rows where "rows = rows_from (total_size_of st) 0 (sorted_stats a st)"
  have p: "processed_stats a st = Inr rows"
    by (simp add: rows_def processed_stats_rows)
  have "st \<noteq> []" using pos by (auto simp: total_size_of_def)
  then have ne: "sorted_stats a st \<noteq> []"
    using length_sorted_stats [of a st] by auto
  then have rne: "rows \<noteq> []"
    using length_rows_from [of "total_size_of st" 0 "sorted_stats a st"] by (auto simp: rows_def)
  have s: "sum_list (map row_percent rows) = 100"
    using pos by (simp add: rows_def rows_from_percent_sum total_sorted_stats pct_total)
  have c: "row_cum_percent (last rows) = 100"
    using pos rows_from_last_cum [OF ne, of "total_size_of st" 0]
    by (simp add: rows_def total_sorted_stats pct_total)
  from p rne s c
  show "\<exists>rows. processed_stats a st = Inr rows \<and> rows \<noteq> [] \<and>
         sum_list (map row_percent rows) = 100 \<and> row_cum_percent (last rows) = 100"
    by blast
next
  assume z: "total_size_of st = 0"
  define rows where "rows = rows_from (total_size_of st) 0 (sorted_stats a st)"
  have p: "processed_stats a st = Inr rows"
    by (simp add: rows_def processed_stats_rows)
  have "row_percent r = 0" if "r \<in> set rows" for r
    using that z rows_from_zero [of "total_size_of st" r 0 "sorted_stats a st"]
    by (simp add: rows_def)
  then have "list_all (\<lambda>r. row_percent r = 0) rows" by (simp add: list_all_iff)
  with p show "\<exists>rows. processed_stats a st = Inr rows \<and> list_all (\<lambda>r. row_percent r = 0) rows"
    by blast
qed

theorem percents_sum_to_100_witness:
  "0 < total_size_of [(''a'', \<lparr>st_size = 3, st_count = 1\<rparr>), (''b'', \<lparr>st_size = 1, st_count = 1\<rparr>),
      (''c'', \<lparr>st_size = 3, st_count = 2\<rparr>)] \<and>
   processed_stats default_args
     [(''a'', \<lparr>st_size = 3, st_count = 1\<rparr>), (''b'', \<lparr>st_size = 1, st_count = 1\<rparr>),
      (''c'', \<lparr>st_size = 3, st_count = 2\<rparr>)] =
     Inr [(''b'', \<lparr>st_size = 1, st_count = 1\<rparr>, 100 / 7, 100 / 7),
          (''a'', \<lparr>st_size = 3, st_count = 1\<rparr>, 300 / 7, 400 / 7),
          (''c'', \<lparr>st_size = 3, st_count = 2\<rparr>, 300 / 7, 100)] \<and>
   sum_list (map row_percent
     [(''b'', \<lparr>st_size = 1, st_count = 1\<rparr>, 100 / 7, 100 / 7),
      (''a'', \<lparr>st_size = 3, st_count = 1\<rparr>, 300 / 7, 400 / 7),
      (''c'', \<lparr>st_size = 3, st_count = 2\<rparr>, 300 / 7, 100)]) = 100 \<and>
   total_size_of [(''z'', \<lparr>st_size = 0, st_count = 1\<rparr>)] = 0 \<and>
   processed_stats default_args [(''z'', \<lparr>st_size = 0, st_count = 1\<rparr>)] =
     Inr [(''z'', \<lparr>st_size = 0, st_count = 1\<rparr>, 0, 0)]"
proof -
  let ?st = "[(''a'', \<lparr>st_size = 3, st_count = 1\<rparr>), (''b'', \<lparr>st_size = 1, st_count = 1\<rparr>),
      (''c'', \<lparr>st_size = 3, st_count = 2\<rparr>)]"
  let ?rows = "[(''b'', \<lparr>st_size = 1, st_count = 1\<rparr>, 100 / 7, 100 / 7),
          (''a'', \<lparr>st_size = 3, st_count = 1\<rparr>, 300 / 7, 400 / 7),
          (''c'', \<lparr>st_size = 3, st_count = 2\<rparr>, 300 / 7, 100 :: rat)]"
  have t: "0 < total_size_of ?st" by code_simp
  have p: "processed_stats default_args ?st = Inr ?rows" by code_simp
  from percents_sum_to_100 [of ?st default_args] t p
  have s: "sum_list (map row_percent ?rows) = 100" by auto
  have z: "total_size_of [(''z'', \<lparr>st_size = 0, st_count = 1\<rparr>)] = 0" by code_simp
  have q: "processed_stats default_args [(''z'', \<lparr>st_size = 0, st_count = 1\<rparr>)] =
     Inr [(''z'', \<lparr>st_size = 0, st_count = 1\<rparr>, 0, 0)]" by code_simp
  from t p s z q show ?thesis by blast
qed

text \<open>
  Claim C8. For each sort column the report order is a stable sort of the items of the
  stats on that column's key: a rearrangement of the items, ascending in the key, where
  items of equal key keep the order they have in the stats. The size and count keys are
  integers; the name key is the identity string, which the order on strings compares
  lexicographically by character code. With the reverse flag the order is descending in
  the key and items of equal key still keep their original order, so the result is not
  the reversal of the forward order: for the sizes 3, 1, 3 of \<open>a\<close>, \<open>b\<close>, \<open>c\<close> the
  reverse order is \<open>a\<close>, \<open>c\<close>, \<open>b\<close> and the reversal of the forward order is \<open>c\<close>, \<open>a\<close>,
  \<open>b\<close>.
\<close>

theorem sorted_stats_stable:
  "(sort_by a = Size \<longrightarrow>
      stable_sorted_by (\<lambda>item. st_size (snd item)) (reverse a) st (sorted_stats a st)) \<and>
   (sort_by a = Count \<longrightarrow>
      stable_sorted_by (\<lambda>item. st_count (snd item)) (reverse a) st (sorted_stats a st)) \<and>
   (sort_by a = Name \<longrightarrow>
      stable_sorted_by (\<lambda>item. fst item) (reverse a) st (sorted_stats a st)) \<and>
   sorted_stats (default_args\<lparr>reverse := True\<rparr>)
     [(''a'', \<lparr>st_size = 3, st_count = 1\<rparr>), (''b'', \<lparr>st_size = 1, st_count = 1\<rparr>),
      (''c'', \<lparr>st_size = 3, st_count = 2\<rparr>)] =
     [(''a'', \<lparr>st_size = 3, st_count = 1\<rparr>), (''c'', \<lparr>st_size = 3, st_count = 2\<rparr>),
      (''b'', \<lparr>st_size = 1, st_count = 1\<rparr>)] \<and>
   rev (sorted_stats default_args
     [(''a'', \<lparr>st_size = 3, st_count = 1\<rparr>), (''b'', \<lparr>st_size = 1, st_count = 1\<rparr>),
      (''c'', \<lparr>st_size = 3, st_count = 2\<rparr>)]) =
     [(''c'', \<lparr>st_size = 3, st_count = 2\<rparr>), (''a'', \<lparr>st_size = 3, st_count = 1\<rparr>),
      (''b'', \<lparr>st_size = 1, st_count = 1\<rparr>)]"
proof -
  have 1: "stable_sorted_by (\<lambda>item. st_size (snd item)) (reverse a) st (sorted_stats a st)"
    if "sort_by a = Size"
    using that by (simp add: sorted_stats_def py_sorted_stable)
  have 2: "stable_sorted_by (\<lambda>item. st_count (snd item)) (reverse a) st (sorted_stats a st)"
    if "sort_by a = Count"
    using that by (simp add: sorted_stats_def py_sorted_stable)
  have 3: "stable_sorted_by (\<lambda>item. fst item) (reverse a) st (sorted_stats a st)"
    if "sort_by a = Name"
    using that by (simp add: sorted_stats_def py_sorted_stable)
  have 4: "sorted_stats (default_args\<lparr>reverse := True\<rparr>)
     [(''a'', \<lparr>st_size = 3, st_count = 1\<rparr>), (''b'', \<lparr>st_size = 1, st_count = 1\<rparr>),
      (''c'', \<lparr>st_size = 3, st_count = 2\<rparr>)] =
     [(''a'', \<lparr>st_size = 3, st_count = 1\<rparr>), (''c'', \<lparr>st_size = 3, st_count = 2\<rparr>),
      (''b'', \<lparr>st_size = 1, st_count = 1\<rparr>)]"
    by code_simp
  have 5: "rev (sorted_stats default_args
     [(''a'', \<lparr>st_size = 3, st_count = 1\<rparr>), (''b'', \<lparr>st_size = 1, st_count = 1\<rparr>),
      (''c'', \<lparr>st_size = 3, st_count = 2\<rparr>)]) =
     [(''c'', \<lparr>st_size = 3, st_count = 2\<rparr>), (''a'', \<lparr>st_size = 3, st_count = 1\<rparr>),
      (''b'', \<lparr>st_size = 1, st_count = 1\<rparr>)]"
    by code_simp
  from 1 2 3 4 5 show ?thesis by blast
qed

theorem sorted_stats_stable_witness:
  "sort_by (default_args\<lparr>sort_by := Name, reverse := True\<rparr>) = Name \<and>
   sorted_stats (default_args\<lparr>sort_by := Name, reverse := True\<rparr>)
     [(''go'', \<lparr>st_size = 3, st_count = 1\<rparr>), (''gcc'', \<lparr>st_size = 1, st_count = 1\<rparr>),
      (''zlib'', \<lparr>st_size = 3, st_count = 2\<rparr>), (''g'', \<lparr>st_size = 2, st_count = 2\<rparr>)] =
     [(''zlib'', \<lparr>st_size = 3, st_count = 2\<rparr>), (''go'', \<lparr>st_size = 3, st_count = 1\<rparr>),
      (''gcc'', \<lparr>st_size = 1, st_count = 1\<rparr>), (''g'', \<lparr>st_size = 2, st_count = 2\<rparr>)] \<and>
   stable_sorted_by (\<lambda>item. fst item) True
     [(''go'', \<lparr>st_size = 3, st_count = 1\<rparr>), (''gcc'', \<lparr>st_size = 1, st_count = 1\<rparr>),
      (''zlib'', \<lparr>st_size = 3, st_count = 2\<rparr>), (''g'', \<lparr>st_size = 2, st_count = 2\<rparr>)]
     [(''zlib'', \<lparr>st_size = 3, st_count = 2\<rparr>), (''go'', \<lparr>st_size = 3, st_count = 1\<rparr>),
      (''gcc'', \<lparr>st_size = 1, st_count = 1\<rparr>), (''g'', \<lparr>st_size = 2, st_count = 2\<rparr>)] \<and>
   sort_by default_args = Size \<and>
   sorted_stats default_args
     [(''a'', \<lparr>st_size = 3, st_count = 1\<rparr>), (''b'', \<lparr>st_size = 1, st_count = 1\<rparr>),
      (''c'', \<lparr>st_size = 3, st_count = 2\<rparr>)] =
     [(''b'', \<lparr>st_size = 1, st_count = 1\<rparr>), (''a'', \<lparr>st_size = 3, st_count = 1\<rparr>),
      (''c'', \<lparr>st_size = 3, st_count = 2\<rparr>)] \<and>
   sort_by (default_args\<lparr>sort_by := Count\<rparr>) = Count \<and>
   sorted_stats (default_args\<lparr>sort_by := Count\<rparr>)
     [(''c'', \<lparr>st_size = 3, st_count = 2\<rparr>), (''a'', \<lparr>st_size = 3, st_count = 1\<rparr>),
      (''b'', \<lparr>st_size = 1, st_count = 1\<rparr>)] =
     [(''a'', \<lparr>st_size = 3, st_count = 1\<rparr>), (''b'', \<lparr>st_size = 1, st_count = 1\<rparr>),
      (''c'', \<lparr>st_size = 3, st_count = 2\<rparr>)]"
proof -
  let ?a = "default_args\<lparr>sort_by := Name, reverse := True\<rparr>"
  let ?st = "[(''go'', \<lparr>st_size = 3, st_count = 1\<rparr>), (''gcc'', \<lparr>st_size = 1, st_count = 1\<rparr>),
      (''zlib'', \<lparr>st_size = 3, st_count = 2\<rparr>), (''g'', \<lparr>st_size = 2, st_count = 2\<rparr>)]"
  have n: "sort_by ?a = Name" by (simp add: default_args_def)
  have r: "reverse ?a = True" by (simp add: default_args_def)
  have s: "sorted_stats ?a ?st =
     [(''zlib'', \<lparr>st_size = 3, st_count = 2\<rparr>), (''go'', \<lparr>st_size = 3, st_count = 1\<rparr>),
      (''gcc'', \<lparr>st_size = 1, st_count = 1\<rparr>), (''g'', \<lparr>st_size = 2, st_count = 2\<rparr>)]"
    by code_simp
  from sorted_stats_stable [of ?a ?st] n
  have "stable_sorted_by (\<lambda>item. fst item) (reverse ?a) ?st (sorted_stats ?a ?st)" by blast
  then have w: "stable_sorted_by (\<lambda>item. fst item) True ?st
     [(''zlib'', \<lparr>st_size = 3, st_count = 2\<rparr>), (''go'', \<lparr>st_size = 3, st_count = 1\<rparr>),
      (''gcc'', \<lparr>st_size = 1, st_count = 1\<rparr>), (''g'', \<lparr>st_size = 2, st_count = 2\<rparr>)]"
    unfolding r s .
  have z: "sort_by default_args = Size" by (simp add: default_args_def)
  have f: "sorted_stats default_args
     [(''a'', \<lparr>st_size = 3, st_count = 1\<rparr>), (''b'', \<lparr>st_size = 1, st_count = 1\<rparr>),
      (''c'', \<lparr>st_size = 3, st_count = 2\<rparr>)] =
     [(''b'', \<lparr>st_size = 1, st_count = 1\<rparr>), (''a'', \<lparr>st_size = 3, st_count = 1\<rparr>),
      (''c'', \<lparr>st_size = 3, st_count = 2\<rparr>)]" by code_simp
  have c: "sort_by (default_args\<lparr>sort_by := Count\<rparr>) = Count" by (simp add: default_args_def)
  have g: "sorted_stats (default_args\<lparr>sort_by := Count\<rparr>)
     [(''c'', \<lparr>st_size = 3, st_count = 2\<rparr>), (''a'', \<lparr>st_size = 3, st_count = 1\<rparr>),
      (''b'', \<lparr>st_size = 1, st_count = 1\<rparr>)] =
     [(''a'', \<lparr>st_size = 3, st_count = 1\<rparr>), (''b'', \<lparr>st_size = 1, st_count = 1\<rparr>),
      (''c'', \<lparr>st_size = 3, st_count = 2\<rparr>)]" by code_simp
  from n s w z f c g show ?thesis by blast
qed



end
